theory Spec2Isabelle
  imports Main "HOL-Library.Sublist"
begin

section \<open>Data model of the parser and type checker\<close>

text \<open>
  The structs \<open>Tok\<close> and \<open>Sym\<close> of \<open>semantic_analyser.c\<close>, \<open>sematic_analyser.c\<close> and
  \<open>syntax_analyser.c\<close>. The character buffers are C strings; they are modelled as
  \<open>string\<close>, and every \<open>strcmp(a, b) == 0\<close> is equality of strings.
\<close>

record Tok =
  token :: string
  lexeme :: string
  line :: int

record Sym =
  sym_lexeme :: string
  sym_type :: string
  sym_scope :: string
  array_size :: int

text \<open>
  The process-wide registers: the token array \<open>toks\<close> (\<open>ntok\<close> is its length), the cursor
  \<open>pos\<close>, the symbol array \<open>symtab\<close> (\<open>nsym\<close> is its length), \<open>cur_scope\<close> and
  \<open>error_count\<close>. The lines written to standard error, \<open>Line <n>: <message>\<close>, are kept
  in \<open>diag\<close> as pairs of line number and message, in the order written.
\<close>

record pstate =
  toks :: "Tok list"
  pos :: nat
  symtab :: "Sym list"
  cur_scope :: string
  error_count :: nat
  diag :: "(int \<times> string) list"

definition MAXSYM :: nat where
  "MAXSYM = 4096"

definition TYPE_ERROR :: int where
  "TYPE_ERROR = 0"

definition TYPE_INT :: int where
  "TYPE_INT = 1"

definition TYPE_CHAR :: int where
  "TYPE_CHAR = 2"

lemmas type_codes = TYPE_ERROR_def TYPE_INT_def TYPE_CHAR_def

section \<open>Token helpers of \<open>semantic_analyser.c\<close>\<close>

definition semantic_error :: "string \<Rightarrow> int \<Rightarrow> pstate \<Rightarrow> pstate" where
  "semantic_error msg ln s =
     s\<lparr>diag := diag s @ [(ln, msg)], error_count := error_count s + 1\<rparr>"

function skip_line_tokens :: "int \<Rightarrow> pstate \<Rightarrow> pstate" where
  "skip_line_tokens ln s =
     (if pos s < length (toks s) \<and> line (toks s ! pos s) = ln
      then skip_line_tokens ln (s\<lparr>pos := pos s + 1\<rparr>)
      else s)"
  by pat_completeness auto
termination
  by (relation "measure (\<lambda>(ln, s). length (toks s) - pos s)") auto

declare skip_line_tokens.simps [simp del]

text \<open>The sentinel built when the cursor is at or past \<open>ntok\<close>; its line is 0 here.\<close>

definition eof_tok :: Tok where
  "eof_tok = \<lparr>token = ''EOF'', lexeme = '''', line = 0\<rparr>"

definition LA :: "pstate \<Rightarrow> Tok" where
  "LA s = (if pos s < length (toks s) then toks s ! pos s else eof_tok)"

definition syn_error :: "string \<Rightarrow> pstate \<Rightarrow> pstate" where
  "syn_error msg s =
     (let t = (if pos s < length (toks s) then toks s ! pos s else eof_tok)
      in skip_line_tokens (line t)
           (s\<lparr>diag := diag s @ [(line t, msg)], error_count := error_count s + 1\<rparr>))"

definition consume :: "pstate \<Rightarrow> Tok \<times> pstate" where
  "consume s =
     (let t = LA s
      in (t, if pos s < length (toks s) then s\<lparr>pos := pos s + 1\<rparr> else s))"

text \<open>
  \<open>match(kind, out)\<close>: \<open>Some a\<close> stands for the return value 1 with \<open>*out = a\<close>, \<open>None\<close>
  for the return value 0.
\<close>

definition match :: "string \<Rightarrow> pstate \<Rightarrow> Tok option \<times> pstate" where
  "match kind s =
     (let t = LA s
      in if token t = kind then (Some t, snd (consume s)) else (None, s))"

definition is_type_token :: "string \<Rightarrow> bool" where
  "is_type_token tk \<longleftrightarrow> tk = ''VOID'' \<or> tk = ''CHAR'' \<or> tk = ''INT''"

definition norm_type_token :: "string \<Rightarrow> string" where
  "norm_type_token tk =
     (if tk = ''VOID'' then ''Void''
      else if tk = ''CHAR'' then ''Char''
      else if tk = ''INT'' then ''Int''
      else ''?'')"

definition str_to_type :: "string \<Rightarrow> int" where
  "str_to_type t =
     (if t = ''Int'' then TYPE_INT
      else if t = ''Char'' then TYPE_CHAR
      else TYPE_ERROR)"

definition const_token_type :: "Tok \<Rightarrow> int" where
  "const_token_type t =
     (if token t = ''INT_CONST'' then TYPE_INT
      else if token t = ''CHAR_CONST'' then TYPE_CHAR
      else TYPE_ERROR)"

section \<open>Symbol table of \<open>semantic_analyser.c\<close>\<close>

text \<open>
  \<open>add_symbol\<close> scans the table for an entry with the same lexeme and scope (the scan is
  \<open>declared_in\<close>), then checks
  the capacity, then stores the strings with \<open>snprintf\<close> into buffers of 128, 16 and 64
  bytes, which keeps at most 127, 15 and 63 characters.
\<close>

definition declared_in :: "string \<Rightarrow> string \<Rightarrow> Sym list \<Rightarrow> bool" where
  "declared_in name scope tab \<longleftrightarrow> list_ex (\<lambda>e. sym_lexeme e = name \<and> sym_scope e = scope) tab"

definition add_symbol :: "string \<Rightarrow> string \<Rightarrow> string \<Rightarrow> int \<Rightarrow> int \<Rightarrow> pstate \<Rightarrow> pstate" where
  "add_symbol name ty scope arrsz ln s =
     (if declared_in name scope (symtab s)
      then semantic_error ''Multiple declarations of same identifier.'' ln s
      else if length (symtab s) \<ge> MAXSYM then s
      else s\<lparr>symtab := symtab s @
             [\<lparr>sym_lexeme = take 127 name, sym_type = take 15 ty,
               sym_scope = take 63 scope, array_size = arrsz\<rparr>]\<rparr>)"

text \<open>
  \<open>lookup_symbol\<close> returns a pointer to the first entry of the current scope with the
  name, else to the first entry of scope \<open>Global\<close> with the name, else \<open>NULL\<close>. Entries
  are never changed, so the pointer is modelled by the entry itself.
\<close>

definition lookup_symbol :: "string \<Rightarrow> pstate \<Rightarrow> Sym option" where
  "lookup_symbol name s =
     (case find (\<lambda>e. sym_lexeme e = name \<and> sym_scope e = cur_scope s) (symtab s) of
        Some e \<Rightarrow> Some e
      | None \<Rightarrow> find (\<lambda>e. sym_lexeme e = name \<and> sym_scope e = ''Global'') (symtab s))"

section \<open>Type rules\<close>

definition is_operator :: "string \<Rightarrow> bool" where
  "is_operator tk \<longleftrightarrow>
     tk = ''PLUS'' \<or> tk = ''MINUS'' \<or> tk = ''STAR'' \<or> tk = ''SLASH'' \<or>
     tk = ''GT'' \<or> tk = ''LT'' \<or> tk = ''EQ'' \<or> tk = ''ASSIGN''"

definition apply_binary_op :: "string \<Rightarrow> int \<Rightarrow> int \<Rightarrow> int \<Rightarrow> pstate \<Rightarrow> int \<times> pstate" where
  "apply_binary_op op lhs_type rhs_type ln s =
     (if op = ''ASSIGN'' then
        (if lhs_type = TYPE_ERROR \<or> rhs_type = TYPE_ERROR then (TYPE_ERROR, s)
         else if lhs_type \<noteq> rhs_type
         then (TYPE_ERROR, semantic_error ''Type mismatch in statement or expression.'' ln s)
         else (lhs_type, s))
      else if op = ''PLUS'' \<or> op = ''MINUS'' \<or> op = ''STAR'' \<or> op = ''SLASH'' then
        (if lhs_type = TYPE_ERROR \<or> rhs_type = TYPE_ERROR then (TYPE_ERROR, s)
         else if lhs_type \<noteq> rhs_type
         then (TYPE_ERROR, semantic_error ''Type mismatch in statement or expression.'' ln s)
         else (lhs_type, s))
      else if op = ''LT'' \<or> op = ''GT'' \<or> op = ''EQ'' then
        (if lhs_type = TYPE_ERROR \<or> rhs_type = TYPE_ERROR then (TYPE_ERROR, s)
         else if lhs_type \<noteq> rhs_type
         then (TYPE_ERROR, semantic_error ''Type mismatch in statement or expression.'' ln s)
         else (TYPE_INT, s))
      else (TYPE_ERROR, s))"

lemma pos_semantic_error [simp]: "pos (semantic_error msg ln s) = pos s"
  by (simp add: semantic_error_def)

lemma toks_semantic_error [simp]: "toks (semantic_error msg ln s) = toks s"
  by (simp add: semantic_error_def)

lemma pos_apply_binary_op [simp]: "pos (snd (apply_binary_op op l r ln s)) = pos s"
  by (simp add: apply_binary_op_def)

lemma toks_apply_binary_op [simp]: "toks (snd (apply_binary_op op l r ln s)) = toks s"
  by (simp add: apply_binary_op_def)

lemma toks_consume [simp]: "toks (snd (consume s)) = toks s"
  by (simp add: consume_def Let_def)

lemma pos_consume:
  "pos (snd (consume s)) = (if pos s < length (toks s) then pos s + 1 else pos s)"
  by (simp add: consume_def Let_def)

lemma is_operator_LA_in_range: "is_operator (token (LA s)) \<Longrightarrow> pos s < length (toks s)"
  by (auto simp: LA_def eof_tok_def is_operator_def split: if_splits)

text \<open>
  The operand after an operator, as the body of the loop in \<open>expression_if_any\<close> reads it:
  \<open>None\<close> is the branch that reports a syntax error and leaves the loop, \<open>Some\<close> carries
  \<open>rhs_type\<close> and the state after the operand is consumed.
\<close>

definition rhs_operand :: "pstate \<Rightarrow> (int \<times> pstate) option" where
  "rhs_operand s =
     (let b = LA s in
      if token b = ''IDENTIFIER'' then
        (case lookup_symbol (lexeme b) s of
           None \<Rightarrow>
             Some (TYPE_ERROR, snd (consume (semantic_error ''Undeclared identifier.'' (line b) s)))
         | Some sy \<Rightarrow> Some (str_to_type (sym_type sy), snd (consume s)))
      else if token b = ''INT_CONST'' \<or> token b = ''CHAR_CONST'' then
        Some (const_token_type b, snd (consume s))
      else None)"

lemma rhs_operand_toks: "rhs_operand s = Some (t, s') \<Longrightarrow> toks s' = toks s"
  by (auto simp: rhs_operand_def Let_def split: if_splits option.splits)

lemma rhs_operand_pos: "rhs_operand s = Some (t, s') \<Longrightarrow> pos s \<le> pos s'"
  by (auto simp: rhs_operand_def Let_def pos_consume split: if_splits option.splits)

text \<open>The \<open>for (;;)\<close> loop of \<open>expression_if_any\<close>, from the running type \<open>cur_type\<close>.\<close>

function expr_loop :: "int \<Rightarrow> pstate \<Rightarrow> int \<times> pstate" where
  "expr_loop cur_type s =
     (let op = LA s in
      if \<not> is_operator (token op) then (cur_type, s)
      else
        (case rhs_operand (snd (consume s)) of
           None \<Rightarrow>
             (cur_type, syn_error ''Identifier or integer constant expected'' (snd (consume s)))
         | Some (rhs_type, s2) \<Rightarrow>
             expr_loop (fst (apply_binary_op (token op) cur_type rhs_type (line op) s2))
                       (snd (apply_binary_op (token op) cur_type rhs_type (line op) s2))))"
  by pat_completeness auto
termination
proof (relation "measure (\<lambda>(t, s). length (toks s) - pos s)", goal_cases)
  case 1
  show ?case by simp
next
  case (2 cur_type s op x2 rhs_type s2)
  then have r: "rhs_operand (snd (consume s)) = Some (rhs_type, s2)"
    by simp
  from 2 have "pos s < length (toks s)"
    using is_operator_LA_in_range by blast
  moreover have "toks s2 = toks s"
    using rhs_operand_toks [OF r] by simp
  moreover have "pos s + 1 \<le> pos s2"
    using rhs_operand_pos [OF r] \<open>pos s < length (toks s)\<close> by (simp add: pos_consume)
  ultimately show ?case by (simp add: case_prod_beta)
qed

declare expr_loop.simps [simp del]

text \<open>
  \<open>expression_if_any(&out_type)\<close>: \<open>None\<close> is the return value 0, with \<open>*out_type\<close> not
  written; \<open>Some t\<close> is the return value 1 with \<open>*out_type = t\<close>.
\<close>

definition expression_if_any :: "pstate \<Rightarrow> int option \<times> pstate" where
  "expression_if_any s =
     (let a = LA s in
      if token a = ''IDENTIFIER'' then
        (case lookup_symbol (lexeme a) s of
           None \<Rightarrow>
             (let r = expr_loop TYPE_ERROR
                        (snd (consume (semantic_error ''Undeclared identifier.'' (line a) s)))
              in (Some (fst r), snd r))
         | Some sy \<Rightarrow>
             (let r = expr_loop (str_to_type (sym_type sy)) (snd (consume s))
              in (Some (fst r), snd r)))
      else if token a = ''INT_CONST'' \<or> token a = ''CHAR_CONST'' then
        (let r = expr_loop (const_token_type a) (snd (consume s))
         in (Some (fst r), snd r))
      else (None, s))"


text \<open>The registers as the static initialisers leave them, over a loaded token array.\<close>

definition init_state :: "Tok list \<Rightarrow> pstate" where
  "init_state ts =
     \<lparr>toks = ts, pos = 0, symtab = [], cur_scope = ''Global'', error_count = 0, diag = []\<rparr>"

definition mk_tok :: "string \<Rightarrow> string \<Rightarrow> int \<Rightarrow> Tok" where
  "mk_tok k l n = \<lparr>token = k, lexeme = l, line = n\<rparr>"

section \<open>Frame lemmas\<close>

lemma skip_line_tokens_frame:
  "toks (skip_line_tokens ln s) = toks s \<and>
   symtab (skip_line_tokens ln s) = symtab s \<and>
   cur_scope (skip_line_tokens ln s) = cur_scope s \<and>
   error_count (skip_line_tokens ln s) = error_count s \<and>
   diag (skip_line_tokens ln s) = diag s \<and>
   pos s \<le> pos (skip_line_tokens ln s)"
proof (induction ln s rule: skip_line_tokens.induct)
  case (1 ln s)
  show ?case
  proof (cases "pos s < length (toks s) \<and> line (toks s ! pos s) = ln")
    case True
    then have eq: "skip_line_tokens ln s = skip_line_tokens ln (s\<lparr>pos := pos s + 1\<rparr>)"
      by (subst skip_line_tokens.simps) simp
    show ?thesis
      unfolding eq using 1 True by simp
  next
    case False
    then have eq: "skip_line_tokens ln s = s"
      by (subst skip_line_tokens.simps) auto
    show ?thesis
      unfolding eq by simp
  qed
qed

lemma diag_semantic_error [simp]: "diag (semantic_error msg ln s) = diag s @ [(ln, msg)]"
  by (simp add: semantic_error_def)

lemma diag_syn_error:
  "diag (syn_error msg s) = diag s @ [(line (LA s), msg)]"
  by (simp add: syn_error_def LA_def Let_def skip_line_tokens_frame)

lemma diag_consume [simp]: "diag (snd (consume s)) = diag s"
  by (simp add: consume_def Let_def)

definition mismatch_msg :: string where
  "mismatch_msg = ''Type mismatch in statement or expression.''"

definition mismatches :: "(int \<times> string) list \<Rightarrow> (int \<times> string) list" where
  "mismatches ds = filter (\<lambda>d. snd d = mismatch_msg) ds"

lemma mismatches_append [simp]: "mismatches (xs @ ys) = mismatches xs @ mismatches ys"
  by (simp add: mismatches_def)

lemma apply_binary_op_error:
  "lhs = TYPE_ERROR \<or> rhs = TYPE_ERROR \<Longrightarrow> apply_binary_op op lhs rhs ln s = (TYPE_ERROR, s)"
  by (auto simp: apply_binary_op_def)

lemma rhs_operand_mismatches:
  "rhs_operand s = Some (t, s') \<Longrightarrow> mismatches (diag s') = mismatches (diag s)"
  by (auto simp: rhs_operand_def Let_def mismatches_def mismatch_msg_def
           split: if_splits option.splits)

lemma expr_loop_error:
  "cur = TYPE_ERROR \<Longrightarrow>
     fst (expr_loop cur s) = TYPE_ERROR \<and>
     mismatches (diag (snd (expr_loop cur s))) = mismatches (diag s)"
proof (induction cur s rule: expr_loop.induct)
  case (1 cur_type s)
  show ?case
  proof (cases "is_operator (token (LA s))")
    case False
    then show ?thesis
      using 1(2) by (subst (1 2) expr_loop.simps) simp
  next
    case op: True
    show ?thesis
    proof (cases "rhs_operand (snd (consume s))")
      case None
      with op 1(2) show ?thesis
        by (subst (1 2) expr_loop.simps)
           (simp add: diag_syn_error mismatches_def mismatch_msg_def)
    next
      case (Some r)
      obtain rhs_type s2 where r: "r = (rhs_type, s2)"
        by (cases r)
      have ap: "apply_binary_op (token (LA s)) cur_type rhs_type (line (LA s)) s2 = (TYPE_ERROR, s2)"
        using 1(2) by (simp add: apply_binary_op_error)
      have ih: "fst (expr_loop TYPE_ERROR s2) = TYPE_ERROR \<and>
                mismatches (diag (snd (expr_loop TYPE_ERROR s2))) = mismatches (diag s2)"
        using 1(1) [OF refl _ Some r [symmetric]] op ap by simp
      have d2: "mismatches (diag s2) = mismatches (diag s)"
        using rhs_operand_mismatches Some r by fastforce
      show ?thesis
        using op Some r ap ih d2 by (subst (1 2) expr_loop.simps) simp
    qed
  qed
qed

section \<open>Claims on the type rules\<close>

text \<open>
  C1. In \<open>apply_binary_op\<close>, when either operand type is \<open>TYPE_ERROR\<close> the result is
  \<open>TYPE_ERROR\<close> and the state is returned as it was: nothing is written to standard
  error and \<open>error_count\<close> keeps its value. This holds for each of the eight operators
  (and for any other tag). Hence the operator loop of \<open>expression_if_any\<close>, entered with the
  running type \<open>TYPE_ERROR\<close>, ends with \<open>TYPE_ERROR\<close> and adds no type-mismatch
  diagnostic, whatever operators and operands follow.
\<close>

theorem C1_error_operand_is_silent:
  "(lhs = TYPE_ERROR \<or> rhs = TYPE_ERROR \<longrightarrow>
      apply_binary_op op lhs rhs ln s = (TYPE_ERROR, s)) \<and>
   fst (expr_loop TYPE_ERROR s) = TYPE_ERROR \<and>
   mismatches (diag (snd (expr_loop TYPE_ERROR s))) = mismatches (diag s)"
  using apply_binary_op_error [of lhs rhs op ln s] expr_loop_error [of TYPE_ERROR s]
  by blast


theorem C1_error_operand_is_silent_witness:
  "(TYPE_ERROR = TYPE_ERROR \<or> TYPE_CHAR = TYPE_ERROR) \<and>
   apply_binary_op ''PLUS'' TYPE_ERROR TYPE_CHAR 1
     (init_state [mk_tok ''MINUS'' ''-'' 1, mk_tok ''INT_CONST'' ''1'' 1]) =
     (TYPE_ERROR, init_state [mk_tok ''MINUS'' ''-'' 1, mk_tok ''INT_CONST'' ''1'' 1]) \<and>
   mismatches (diag (snd (expr_loop TYPE_ERROR
     (init_state [mk_tok ''MINUS'' ''-'' 1, mk_tok ''INT_CONST'' ''1'' 1])))) = []"
  using C1_error_operand_is_silent [of TYPE_ERROR TYPE_CHAR "''PLUS''" 1
      "init_state [mk_tok ''MINUS'' ''-'' 1, mk_tok ''INT_CONST'' ''1'' 1]"]
  by (simp add: init_state_def mismatches_def)

text \<open>
  C2. In \<open>apply_binary_op\<close> with both operand types different from \<open>TYPE_ERROR\<close>: for
  \<open>ASSIGN\<close>, \<open>PLUS\<close>, \<open>MINUS\<close>, \<open>STAR\<close> and \<open>SLASH\<close> equal types give that type and leave
  the state alone; for \<open>LT\<close>, \<open>GT\<close> and \<open>EQ\<close> equal types give \<open>TYPE_INT\<close> (also for two
  \<open>TYPE_CHAR\<close> operands) and leave the state alone; for all eight, unequal types give
  \<open>TYPE_ERROR\<close> and write exactly one line, the mismatch message at the operator's line,
  counting one error.
\<close>

theorem C2_apply_binary_op_typed:
  "lhs \<noteq> TYPE_ERROR \<and> rhs \<noteq> TYPE_ERROR \<longrightarrow>
     (op \<in> {''ASSIGN'', ''PLUS'', ''MINUS'', ''STAR'', ''SLASH''} \<and> lhs = rhs \<longrightarrow>
        apply_binary_op op lhs rhs ln s = (lhs, s)) \<and>
     (op \<in> {''LT'', ''GT'', ''EQ''} \<and> lhs = rhs \<longrightarrow>
        apply_binary_op op lhs rhs ln s = (TYPE_INT, s)) \<and>
     (is_operator op \<and> lhs \<noteq> rhs \<longrightarrow>
        apply_binary_op op lhs rhs ln s =
          (TYPE_ERROR,
           s\<lparr>diag := diag s @ [(ln, ''Type mismatch in statement or expression.'')],
             error_count := error_count s + 1\<rparr>))"
  by (auto simp: apply_binary_op_def is_operator_def semantic_error_def)

theorem C2_apply_binary_op_typed_witness:
  "apply_binary_op ''STAR'' TYPE_CHAR TYPE_CHAR 4 (init_state []) = (TYPE_CHAR, init_state []) \<and>
   apply_binary_op ''EQ'' TYPE_CHAR TYPE_CHAR 4 (init_state []) = (TYPE_INT, init_state []) \<and>
   apply_binary_op ''ASSIGN'' TYPE_INT TYPE_CHAR 4 (init_state []) =
     (TYPE_ERROR,
      (init_state [])\<lparr>diag := [(4, ''Type mismatch in statement or expression.'')],
                     error_count := 1\<rparr>)"
  using C2_apply_binary_op_typed [of TYPE_CHAR TYPE_CHAR "''STAR''" 4 "init_state []"]
        C2_apply_binary_op_typed [of TYPE_CHAR TYPE_CHAR "''EQ''" 4 "init_state []"]
        C2_apply_binary_op_typed [of TYPE_INT TYPE_CHAR "''ASSIGN''" 4 "init_state []"]
  by (simp add: type_codes is_operator_def init_state_def)


section \<open>Symbol table: lookup\<close>

lemma lookup_symbol_current:
  assumes "e \<in> set (symtab s)" "sym_lexeme e = name" "sym_scope e = cur_scope s"
  shows "\<exists>r. lookup_symbol name s = Some r \<and> r \<in> set (symtab s) \<and>
             sym_lexeme r = name \<and> sym_scope r = cur_scope s"
proof -
  let ?P = "\<lambda>e. sym_lexeme e = name \<and> sym_scope e = cur_scope s"
  from assms have "find ?P (symtab s) \<noteq> None"
    by (auto simp: find_None_iff)
  then obtain r where r: "find ?P (symtab s) = Some r"
    by blast
  then have "r \<in> set (symtab s) \<and> ?P r"
    by (auto simp: find_Some_iff)
  with r show ?thesis
    by (simp add: lookup_symbol_def)
qed

lemma lookup_symbol_global:
  assumes "\<forall>e \<in> set (symtab s). \<not> (sym_lexeme e = name \<and> sym_scope e = cur_scope s)"
    and "g \<in> set (symtab s)" "sym_lexeme g = name" "sym_scope g = ''Global''"
  shows "\<exists>r. lookup_symbol name s = Some r \<and> r \<in> set (symtab s) \<and>
             sym_lexeme r = name \<and> sym_scope r = ''Global''"
proof -
  let ?P = "\<lambda>e. sym_lexeme e = name \<and> sym_scope e = cur_scope s"
  let ?G = "\<lambda>e. sym_lexeme e = name \<and> sym_scope e = ''Global''"
  from assms(1) have c: "find ?P (symtab s) = None"
    by (auto simp: find_None_iff)
  from assms(2-4) have "find ?G (symtab s) \<noteq> None"
    by (auto simp: find_None_iff)
  then obtain r where r: "find ?G (symtab s) = Some r"
    by blast
  then have "r \<in> set (symtab s) \<and> ?G r"
    by (auto simp: find_Some_iff)
  with c r show ?thesis
    by (simp add: lookup_symbol_def)
qed

lemma lookup_symbol_none:
  assumes "\<forall>e \<in> set (symtab s). \<not> (sym_lexeme e = name \<and> sym_scope e = cur_scope s)"
    and "\<forall>e \<in> set (symtab s). \<not> (sym_lexeme e = name \<and> sym_scope e = ''Global'')"
  shows "lookup_symbol name s = None"
proof -
  from assms(1) have "find (\<lambda>e. sym_lexeme e = name \<and> sym_scope e = cur_scope s) (symtab s) = None"
    by (auto simp: find_None_iff)
  moreover from assms(2)
  have "find (\<lambda>e. sym_lexeme e = name \<and> sym_scope e = ''Global'') (symtab s) = None"
    by (auto simp: find_None_iff)
  ultimately show ?thesis
    by (simp add: lookup_symbol_def)
qed

lemma lookup_symbol_shadow:
  assumes "cur_scope s = ''Main''"
    and "m \<in> set (symtab s)" "sym_lexeme m = x" "sym_scope m = ''Main''"
    and "\<forall>e \<in> set (symtab s). sym_lexeme e = x \<and> sym_scope e = ''Main'' \<longrightarrow> e = m"
  shows "lookup_symbol x s = Some m"
proof -
  obtain r where "lookup_symbol x s = Some r" "r \<in> set (symtab s)"
      "sym_lexeme r = x" "sym_scope r = cur_scope s"
    using lookup_symbol_current [of m s x] assms(1-4) by auto
  with assms(1,5) show ?thesis
    by auto
qed


lemma rhs_operand_resolved:
  "token (LA s) = ''IDENTIFIER'' \<Longrightarrow> lookup_symbol (lexeme (LA s)) s = Some m \<Longrightarrow>
     rhs_operand s = Some (str_to_type (sym_type m), snd (consume s))"
  by (simp add: rhs_operand_def Let_def)

lemma expression_if_any_resolved:
  "token (LA s) = ''IDENTIFIER'' \<Longrightarrow> lookup_symbol (lexeme (LA s)) s = Some m \<Longrightarrow>
     expression_if_any s =
       (Some (fst (expr_loop (str_to_type (sym_type m)) (snd (consume s)))),
        snd (expr_loop (str_to_type (sym_type m)) (snd (consume s))))"
  by (simp add: expression_if_any_def Let_def)

text \<open>
  C5. \<open>lookup_symbol\<close>: when the table has an entry with the name in the current scope,
  the result is such an entry; when it has none but has one of scope \<open>Global\<close>, the result
  is a \<open>Global\<close> entry with the name; when it has neither, the result is \<open>NULL\<close>. So while
  \<open>cur_scope\<close> is \<open>Main\<close>, the \<open>Main\<close> entry named \<open>x\<close> is what every identifier
  reference to \<open>x\<close> resolves to, as first operand and as operand after an operator, whether
  or not a \<open>Global\<close> entry named \<open>x\<close> exists; the operand gets the type of the \<open>Main\<close>
  entry.
\<close>

theorem C5_lookup_precedence:
  "((\<exists>e \<in> set (symtab s). sym_lexeme e = name \<and> sym_scope e = cur_scope s) \<longrightarrow>
      (\<exists>r \<in> set (symtab s). lookup_symbol name s = Some r \<and>
         sym_lexeme r = name \<and> sym_scope r = cur_scope s)) \<and>
   (\<not> (\<exists>e \<in> set (symtab s). sym_lexeme e = name \<and> sym_scope e = cur_scope s) \<and>
    (\<exists>g \<in> set (symtab s). sym_lexeme g = name \<and> sym_scope g = ''Global'') \<longrightarrow>
      (\<exists>r \<in> set (symtab s). lookup_symbol name s = Some r \<and>
         sym_lexeme r = name \<and> sym_scope r = ''Global'')) \<and>
   (\<not> (\<exists>e \<in> set (symtab s). sym_lexeme e = name \<and> sym_scope e = cur_scope s) \<and>
    \<not> (\<exists>g \<in> set (symtab s). sym_lexeme g = name \<and> sym_scope g = ''Global'') \<longrightarrow>
      lookup_symbol name s = None) \<and>
   (cur_scope s = ''Main'' \<and> m \<in> set (symtab s) \<and> sym_lexeme m = name \<and>
    sym_scope m = ''Main'' \<and>
    (\<forall>e \<in> set (symtab s). sym_lexeme e = name \<and> sym_scope e = ''Main'' \<longrightarrow> e = m) \<longrightarrow>
      lookup_symbol name s = Some m \<and>
      (token (LA s) = ''IDENTIFIER'' \<and> lexeme (LA s) = name \<longrightarrow>
         rhs_operand s = Some (str_to_type (sym_type m), snd (consume s)) \<and>
         expression_if_any s =
           (Some (fst (expr_loop (str_to_type (sym_type m)) (snd (consume s)))),
            snd (expr_loop (str_to_type (sym_type m)) (snd (consume s))))))"
proof (intro conjI impI)
  assume "\<exists>e \<in> set (symtab s). sym_lexeme e = name \<and> sym_scope e = cur_scope s"
  then show "\<exists>r \<in> set (symtab s). lookup_symbol name s = Some r \<and>
      sym_lexeme r = name \<and> sym_scope r = cur_scope s"
    using lookup_symbol_current [of _ s name] by blast
next
  assume "\<not> (\<exists>e \<in> set (symtab s). sym_lexeme e = name \<and> sym_scope e = cur_scope s) \<and>
    (\<exists>g \<in> set (symtab s). sym_lexeme g = name \<and> sym_scope g = ''Global'')"
  then show "\<exists>r \<in> set (symtab s). lookup_symbol name s = Some r \<and>
      sym_lexeme r = name \<and> sym_scope r = ''Global''"
    using lookup_symbol_global [of s name] by blast
next
  assume "\<not> (\<exists>e \<in> set (symtab s). sym_lexeme e = name \<and> sym_scope e = cur_scope s) \<and>
    \<not> (\<exists>g \<in> set (symtab s). sym_lexeme g = name \<and> sym_scope g = ''Global'')"
  then show "lookup_symbol name s = None"
    using lookup_symbol_none [of s name] by blast
next
  assume a: "cur_scope s = ''Main'' \<and> m \<in> set (symtab s) \<and> sym_lexeme m = name \<and>
    sym_scope m = ''Main'' \<and>
    (\<forall>e \<in> set (symtab s). sym_lexeme e = name \<and> sym_scope e = ''Main'' \<longrightarrow> e = m)"
  then show l: "lookup_symbol name s = Some m"
    using lookup_symbol_shadow [of s m name] by blast
  assume b: "token (LA s) = ''IDENTIFIER'' \<and> lexeme (LA s) = name"
  with l show "rhs_operand s = Some (str_to_type (sym_type m), snd (consume s))"
    using rhs_operand_resolved [of s m] by simp
  from l b show "expression_if_any s =
      (Some (fst (expr_loop (str_to_type (sym_type m)) (snd (consume s)))),
       snd (expr_loop (str_to_type (sym_type m)) (snd (consume s))))"
    using expression_if_any_resolved [of s m] by simp
qed

definition mk_sym :: "string \<Rightarrow> string \<Rightarrow> string \<Rightarrow> int \<Rightarrow> Sym" where
  "mk_sym n t sc a = \<lparr>sym_lexeme = n, sym_type = t, sym_scope = sc, array_size = a\<rparr>"

definition shadow_state :: pstate where
  "shadow_state =
     \<lparr>toks = [mk_tok ''IDENTIFIER'' ''x'' 3, mk_tok ''SEMICOLON'' '';'' 3], pos = 0,
      symtab = [mk_sym ''x'' ''Int'' ''Global'' 0, mk_sym ''g'' ''Int'' ''Global'' 0,
                mk_sym ''main'' ''Function'' ''Global'' 0, mk_sym ''x'' ''Char'' ''Main'' 0],
      cur_scope = ''Main'', error_count = 0, diag = []\<rparr>"

theorem C5_lookup_precedence_witness:
  "lookup_symbol ''x'' shadow_state = Some (mk_sym ''x'' ''Char'' ''Main'' 0) \<and>
   rhs_operand shadow_state = Some (TYPE_CHAR, snd (consume shadow_state)) \<and>
   lookup_symbol ''g'' shadow_state = Some (mk_sym ''g'' ''Int'' ''Global'' 0) \<and>
   lookup_symbol ''z'' shadow_state = None"
  using C5_lookup_precedence [of shadow_state "''x''" "mk_sym ''x'' ''Char'' ''Main'' 0"]
        C5_lookup_precedence [of shadow_state "''g''" "mk_sym ''x'' ''Char'' ''Main'' 0"]
        C5_lookup_precedence [of shadow_state "''z''" "mk_sym ''x'' ''Char'' ''Main'' 0"]
  by (simp add: shadow_state_def mk_sym_def mk_tok_def LA_def str_to_type_def)


section \<open>Symbol table: insertion\<close>

text \<open>
  \<open>add_symbol\<close> of \<open>sematic_analyser.c\<close>: the capacity check comes first, and the line of
  the diagnostic is that of the token before the cursor (0 when the cursor is at 0), which
  is \<open>prev_line\<close>. The array \<open>toks\<close> is static, so an element at or past \<open>ntok\<close> is
  zero-filled.
\<close>

definition prev_line :: "pstate \<Rightarrow> int" where
  "prev_line s =
     (if pos s > 0
      then (if pos s - 1 < length (toks s) then line (toks s ! (pos s - 1)) else 0)
      else 0)"

definition sematic_add_symbol :: "string \<Rightarrow> string \<Rightarrow> string \<Rightarrow> int \<Rightarrow> pstate \<Rightarrow> pstate" where
  "sematic_add_symbol name ty scope arrsz s =
     (if length (symtab s) \<ge> MAXSYM then s
      else if declared_in name scope (symtab s)
      then semantic_error ''Multiple declarations of same identifier.'' (prev_line s) s
      else s\<lparr>symtab := symtab s @
             [\<lparr>sym_lexeme = take 127 name, sym_type = take 31 ty,
               sym_scope = take 63 scope, array_size = arrsz\<rparr>]\<rparr>)"

text \<open>A table at capacity: 4096 distinct names of scope \<open>Global\<close>, each at most 127 characters.\<close>

definition full_table :: "Sym list" where
  "full_table =
     map (\<lambda>n. mk_sym (replicate (n div 64) (CHR ''a'') @ replicate (Suc (n mod 64)) (CHR ''b''))
                 ''Int'' ''Global'' 0)
         [0..<4096]"

definition full_state :: pstate where
  "full_state = (init_state [])\<lparr>symtab := full_table\<rparr>"

lemma declared_in_iff:
  "declared_in name scope tab \<longleftrightarrow> (\<exists>e \<in> set tab. sym_lexeme e = name \<and> sym_scope e = scope)"
  by (simp add: declared_in_def list_ex_iff)

lemma full_table_length: "length full_table = 4096"
  by (simp add: full_table_def)

lemma full_table_names: "e \<in> set full_table \<Longrightarrow> sym_lexeme e \<noteq> ''c''"
proof
  assume e: "e \<in> set full_table" and c: "sym_lexeme e = ''c''"
  from e obtain n where
    "sym_lexeme e = replicate (n div 64) (CHR ''a'') @ replicate (Suc (n mod 64)) (CHR ''b'')"
    by (auto simp: full_table_def mk_sym_def)
  then have "set (sym_lexeme e) \<subseteq> {CHR ''a'', CHR ''b''}"
    by auto
  with c show False
    by simp
qed

lemma add_symbol_cases:
  "((\<exists>e \<in> set (symtab s). sym_lexeme e = name \<and> sym_scope e = scope) \<longrightarrow>
      add_symbol name ty scope arrsz ln s =
        s\<lparr>diag := diag s @ [(ln, ''Multiple declarations of same identifier.'')],
          error_count := error_count s + 1\<rparr>) \<and>
   (\<not> (\<exists>e \<in> set (symtab s). sym_lexeme e = name \<and> sym_scope e = scope) \<and>
    length (symtab s) < MAXSYM \<longrightarrow>
      add_symbol name ty scope arrsz ln s =
        s\<lparr>symtab := symtab s @
            [\<lparr>sym_lexeme = take 127 name, sym_type = take 15 ty,
              sym_scope = take 63 scope, array_size = arrsz\<rparr>]\<rparr>) \<and>
   (\<not> (\<exists>e \<in> set (symtab s). sym_lexeme e = name \<and> sym_scope e = scope) \<and>
    MAXSYM \<le> length (symtab s) \<longrightarrow>
      add_symbol name ty scope arrsz ln s = s)"
  by (auto simp: add_symbol_def declared_in_iff semantic_error_def)

lemma sematic_add_symbol_cases:
  "(MAXSYM \<le> length (symtab s) \<longrightarrow> sematic_add_symbol name ty scope arrsz s = s) \<and>
   (length (symtab s) < MAXSYM \<and>
    (\<exists>e \<in> set (symtab s). sym_lexeme e = name \<and> sym_scope e = scope) \<longrightarrow>
      sematic_add_symbol name ty scope arrsz s =
        s\<lparr>diag := diag s @ [(prev_line s, ''Multiple declarations of same identifier.'')],
          error_count := error_count s + 1\<rparr>) \<and>
   (length (symtab s) < MAXSYM \<and>
    \<not> (\<exists>e \<in> set (symtab s). sym_lexeme e = name \<and> sym_scope e = scope) \<longrightarrow>
      sematic_add_symbol name ty scope arrsz s =
        s\<lparr>symtab := symtab s @
            [\<lparr>sym_lexeme = take 127 name, sym_type = take 31 ty,
              sym_scope = take 63 scope, array_size = arrsz\<rparr>]\<rparr>)"
  by (auto simp: sematic_add_symbol_def declared_in_iff semantic_error_def)

lemma full_table_first: "mk_sym ''b'' ''Int'' ''Global'' 0 \<in> set full_table"
proof -
  have "full_table ! 0 = mk_sym ''b'' ''Int'' ''Global'' 0"
    by (simp add: full_table_def)
  moreover have "full_table ! 0 \<in> set full_table"
    by (rule nth_mem) (simp add: full_table_length)
  ultimately show ?thesis
    by simp
qed

text \<open>
  C4, as the code has it, for each of the two files. In \<open>semantic_analyser.c\<close> a call of
  \<open>add_symbol\<close> whose name and scope are those of an entry of the table writes the one line
  \<open>Multiple declarations of same identifier.\<close>, counts one error and leaves the table as
  it was; otherwise, on a table of \<open>MAXSYM\<close> = 4096 entries, the call changes nothing and
  writes nothing; otherwise, when the strings fit the buffers of an entry (127, 15 and 63
  characters), it appends the entry as given and writes nothing. In \<open>sematic_analyser.c\<close>
  a call on a table of 4096 entries changes nothing and writes nothing, also for a name
  and scope the table holds; below that size it reports the duplicate, at the line of the
  token before the cursor, or appends the entry as given when the strings fit (127, 31 and
  63 characters).
\<close>

theorem C4_add_symbol_by_capacity:
  "((\<exists>e \<in> set (symtab s). sym_lexeme e = name \<and> sym_scope e = scope) \<longrightarrow>
      add_symbol name ty scope arrsz ln s =
        s\<lparr>diag := diag s @ [(ln, ''Multiple declarations of same identifier.'')],
          error_count := error_count s + 1\<rparr>) \<and>
   (\<not> (\<exists>e \<in> set (symtab s). sym_lexeme e = name \<and> sym_scope e = scope) \<and>
    MAXSYM \<le> length (symtab s) \<longrightarrow>
      add_symbol name ty scope arrsz ln s = s) \<and>
   (\<not> (\<exists>e \<in> set (symtab s). sym_lexeme e = name \<and> sym_scope e = scope) \<and>
    length (symtab s) < MAXSYM \<and>
    length name \<le> 127 \<and> length ty \<le> 15 \<and> length scope \<le> 63 \<longrightarrow>
      add_symbol name ty scope arrsz ln s =
        s\<lparr>symtab := symtab s @
            [\<lparr>sym_lexeme = name, sym_type = ty, sym_scope = scope, array_size = arrsz\<rparr>]\<rparr>) \<and>
   (MAXSYM \<le> length (symtab s) \<longrightarrow> sematic_add_symbol name ty scope arrsz s = s) \<and>
   (length (symtab s) < MAXSYM \<and>
    (\<exists>e \<in> set (symtab s). sym_lexeme e = name \<and> sym_scope e = scope) \<longrightarrow>
      sematic_add_symbol name ty scope arrsz s =
        s\<lparr>diag := diag s @ [(prev_line s, ''Multiple declarations of same identifier.'')],
          error_count := error_count s + 1\<rparr>) \<and>
   (length (symtab s) < MAXSYM \<and>
    \<not> (\<exists>e \<in> set (symtab s). sym_lexeme e = name \<and> sym_scope e = scope) \<and>
    length name \<le> 127 \<and> length ty \<le> 31 \<and> length scope \<le> 63 \<longrightarrow>
      sematic_add_symbol name ty scope arrsz s =
        s\<lparr>symtab := symtab s @
            [\<lparr>sym_lexeme = name, sym_type = ty, sym_scope = scope, array_size = arrsz\<rparr>]\<rparr>)"
  using add_symbol_cases [of s name scope ty arrsz ln]
        sematic_add_symbol_cases [of s name ty scope arrsz]
  by simp

text \<open>
  The two declarations of \<open>int x; int x;\<close> at global scope, as two calls from the empty
  table, in each file: one entry, one diagnostic. The last two calls are on the full
  table, with a new name and with a name the table holds.
\<close>

definition x_state :: pstate where
  "x_state =
     (init_state [mk_tok ''INT'' ''int'' 1, mk_tok ''IDENTIFIER'' ''x'' 1,
                  mk_tok ''SEMICOLON'' '';'' 1, mk_tok ''INT'' ''int'' 2,
                  mk_tok ''IDENTIFIER'' ''x'' 2, mk_tok ''SEMICOLON'' '';'' 2])
       \<lparr>pos := 5, symtab := [mk_sym ''x'' ''Int'' ''Global'' 0]\<rparr>"

theorem C4_add_symbol_by_capacity_witness:
  "add_symbol ''x'' ''Int'' ''Global'' 0 1 (init_state []) =
     (init_state [])\<lparr>symtab := [mk_sym ''x'' ''Int'' ''Global'' 0]\<rparr> \<and>
   add_symbol ''x'' ''Int'' ''Global'' 0 2 x_state =
     x_state\<lparr>diag := [(2, ''Multiple declarations of same identifier.'')],
              error_count := 1\<rparr> \<and>
   add_symbol ''c'' ''Int'' ''Global'' 0 1 full_state = full_state \<and>
   sematic_add_symbol ''x'' ''Int'' ''Global'' 0 (init_state []) =
     (init_state [])\<lparr>symtab := [mk_sym ''x'' ''Int'' ''Global'' 0]\<rparr> \<and>
   sematic_add_symbol ''x'' ''Int'' ''Global'' 0 x_state =
     x_state\<lparr>diag := [(2, ''Multiple declarations of same identifier.'')],
              error_count := 1\<rparr> \<and>
   sematic_add_symbol ''b'' ''Int'' ''Global'' 0 full_state = full_state"
proof -
  have f: "\<not> (\<exists>e \<in> set (symtab full_state). sym_lexeme e = ''c'' \<and> sym_scope e = ''Global'')"
    using full_table_names by (auto simp: full_state_def)
  have l: "MAXSYM \<le> length (symtab full_state)"
    by (simp add: full_state_def full_table_length MAXSYM_def)
  have x: "\<exists>e \<in> set (symtab x_state). sym_lexeme e = ''x'' \<and> sym_scope e = ''Global''"
    by (simp add: x_state_def mk_sym_def)
  have xl: "length (symtab x_state) < MAXSYM" "diag x_state = []" "error_count x_state = 0"
      "prev_line x_state = 2"
    by (simp_all add: x_state_def MAXSYM_def init_state_def prev_line_def mk_tok_def)
  have e: "\<not> (\<exists>e \<in> set (symtab (init_state [])). sym_lexeme e = ''x'' \<and> sym_scope e = ''Global'')"
      "length (symtab (init_state [])) < MAXSYM"
    by (simp_all add: init_state_def MAXSYM_def)
  show ?thesis
    using C4_add_symbol_by_capacity [of "init_state []" "''x''" "''Global''" "''Int''" 0 1] e
          C4_add_symbol_by_capacity [of x_state "''x''" "''Global''" "''Int''" 0 2] x xl
          C4_add_symbol_by_capacity [of full_state "''c''" "''Global''" "''Int''" 0 1] f l
          C4_add_symbol_by_capacity [of full_state "''b''" "''Global''" "''Int''" 0 1]
    by (simp add: mk_sym_def init_state_def)
qed

text \<open>
  The claim as stated fails on a full table. In \<open>semantic_analyser.c\<close> the name \<open>c\<close> is
  not declared in scope \<open>Global\<close>, and the call neither appends it nor reports anything.
  In \<open>sematic_analyser.c\<close> the name \<open>b\<close> is declared in scope \<open>Global\<close>, and the call
  reports nothing.
\<close>

theorem C4_full_table_counterexample:
  "length (symtab full_state) = MAXSYM \<and>
   \<not> declared_in ''c'' ''Global'' (symtab full_state) \<and>
   symtab (add_symbol ''c'' ''Int'' ''Global'' 0 1 full_state) = symtab full_state \<and>
   diag (add_symbol ''c'' ''Int'' ''Global'' 0 1 full_state) = diag full_state \<and>
   declared_in ''b'' ''Global'' (symtab full_state) \<and>
   diag (sematic_add_symbol ''b'' ''Int'' ''Global'' 0 full_state) = diag full_state \<and>
   error_count (sematic_add_symbol ''b'' ''Int'' ''Global'' 0 full_state) = error_count full_state"
proof -
  have n: "\<not> declared_in ''c'' ''Global'' (symtab full_state)"
    using full_table_names by (auto simp: declared_in_iff full_state_def)
  have l: "length (symtab full_state) = MAXSYM"
    by (simp add: full_state_def full_table_length MAXSYM_def)
  have t: "symtab full_state = full_table"
    by (simp add: full_state_def)
  have b: "declared_in ''b'' ''Global'' (symtab full_state)"
    unfolding declared_in_iff t
    by (rule bexI [OF _ full_table_first]) (simp add: mk_sym_def)
  from n l b show ?thesis
    by (simp add: add_symbol_def sematic_add_symbol_def)
qed

section \<open>Token helpers of \<open>sematic_analyser.c\<close> and \<open>syntax_analyser.c\<close>\<close>

text \<open>
  Both files build the sentinel \<open>(Tok){"EOF", "", 999999}\<close>. In \<open>sematic_analyser.c\<close> the
  skipping loop is written inside \<open>syn_error\<close>; it is the loop of \<open>skip_line_tokens\<close>.
\<close>

definition sentinel_tok :: Tok where
  "sentinel_tok = \<lparr>token = ''EOF'', lexeme = [], line = 999999\<rparr>"

definition sematic_LA :: "pstate \<Rightarrow> Tok" where
  "sematic_LA s = (if pos s < length (toks s) then toks s ! pos s else sentinel_tok)"

definition sematic_consume :: "pstate \<Rightarrow> Tok \<times> pstate" where
  "sematic_consume s =
     (if pos s < length (toks s) then (toks s ! pos s, s\<lparr>pos := pos s + 1\<rparr>)
      else (sentinel_tok, s))"

definition sematic_syn_error :: "string \<Rightarrow> pstate \<Rightarrow> pstate" where
  "sematic_syn_error msg s =
     (let t = (if pos s < length (toks s) then toks s ! pos s else sentinel_tok);
          cur = line t
      in skip_line_tokens cur
           (s\<lparr>diag := diag s @ [(line t, msg)], error_count := error_count s + 1\<rparr>))"

definition syntax_LA :: "pstate \<Rightarrow> Tok" where
  "syntax_LA s = (if pos s < length (toks s) then toks s ! pos s else sentinel_tok)"

definition syntax_consume :: "pstate \<Rightarrow> Tok \<times> pstate" where
  "syntax_consume s =
     (if pos s < length (toks s) then (toks s ! pos s, s\<lparr>pos := pos s + 1\<rparr>)
      else (sentinel_tok, s))"

definition syntax_syn_error :: "string \<Rightarrow> pstate \<Rightarrow> pstate" where
  "syntax_syn_error msg s =
     (let t = syntax_LA s
      in skip_line_tokens (line t)
           (s\<lparr>diag := diag s @ [(line t, msg)], error_count := error_count s + 1\<rparr>))"

lemma skip_line_tokens_at_end: "length (toks s) \<le> pos s \<Longrightarrow> skip_line_tokens ln s = s"
  by (subst skip_line_tokens.simps) simp

text \<open>
  C10. With the cursor at or past \<open>ntok\<close>, \<open>LA\<close> and \<open>consume\<close> return the sentinel token of
  kind \<open>EOF\<close> and leave every register as it was, and \<open>syn_error\<close> writes its message with
  the sentinel's line: 0 in \<open>semantic_analyser.c\<close>, 999999 in \<open>sematic_analyser.c\<close> and
  \<open>syntax_analyser.c\<close>, whatever the lines of the loaded tokens are; the cursor stays.
\<close>

theorem C10_end_of_input_sentinel:
  "length (toks s) \<le> pos s \<longrightarrow>
     LA s = eof_tok \<and> consume s = (eof_tok, s) \<and>
     token eof_tok = ''EOF'' \<and> line eof_tok = 0 \<and>
     syn_error msg s = s\<lparr>diag := diag s @ [(0, msg)], error_count := error_count s + 1\<rparr> \<and>
     sematic_LA s = sentinel_tok \<and> sematic_consume s = (sentinel_tok, s) \<and>
     syntax_LA s = sentinel_tok \<and> syntax_consume s = (sentinel_tok, s) \<and>
     token sentinel_tok = ''EOF'' \<and> line sentinel_tok = 999999 \<and>
     sematic_syn_error msg s =
       s\<lparr>diag := diag s @ [(999999, msg)], error_count := error_count s + 1\<rparr> \<and>
     syntax_syn_error msg s =
       s\<lparr>diag := diag s @ [(999999, msg)], error_count := error_count s + 1\<rparr>"
  by (simp add: LA_def consume_def syn_error_def sematic_LA_def sematic_consume_def
        sematic_syn_error_def syntax_LA_def syntax_consume_def syntax_syn_error_def
        eof_tok_def sentinel_tok_def skip_line_tokens_at_end Let_def)

definition ended_state :: pstate where
  "ended_state = (init_state [mk_tok ''INT'' ''int'' 7, mk_tok ''MAIN'' ''main'' 7])\<lparr>pos := 2\<rparr>"

theorem C10_end_of_input_sentinel_witness:
  "length (toks ended_state) \<le> pos ended_state \<and>
   token (LA ended_state) = ''EOF'' \<and>
   consume ended_state = (eof_tok, ended_state) \<and>
   diag (syn_error ''} missing'' ended_state) = [(0, ''} missing'')] \<and>
   diag (sematic_syn_error ''} missing'' ended_state) = [(999999, ''} missing'')] \<and>
   diag (syntax_syn_error ''} missing'' ended_state) = [(999999, ''} missing'')]"
  using C10_end_of_input_sentinel [of ended_state "''} missing''"]
  by (simp add: ended_state_def init_state_def)

section \<open>Error recovery\<close>

lemma skip_line_tokens_run:
  "(\<forall>i. pos s \<le> i \<and> i < pos (skip_line_tokens ln s) \<longrightarrow>
        i < length (toks s) \<and> line (toks s ! i) = ln) \<and>
   (pos (skip_line_tokens ln s) < length (toks s) \<longrightarrow>
        line (toks s ! pos (skip_line_tokens ln s)) \<noteq> ln)"
proof (induction ln s rule: skip_line_tokens.induct)
  case (1 ln s)
  show ?case
  proof (cases "pos s < length (toks s) \<and> line (toks s ! pos s) = ln")
    case True
    then have eq: "skip_line_tokens ln s = skip_line_tokens ln (s\<lparr>pos := pos s + 1\<rparr>)"
      by (subst skip_line_tokens.simps) simp
    have ih: "(\<forall>i. pos s + 1 \<le> i \<and> i < pos (skip_line_tokens ln (s\<lparr>pos := pos s + 1\<rparr>)) \<longrightarrow>
                 i < length (toks s) \<and> line (toks s ! i) = ln) \<and>
              (pos (skip_line_tokens ln (s\<lparr>pos := pos s + 1\<rparr>)) < length (toks s) \<longrightarrow>
                 line (toks s ! pos (skip_line_tokens ln (s\<lparr>pos := pos s + 1\<rparr>))) \<noteq> ln)"
      using 1 True by simp
    show ?thesis
      unfolding eq
    proof (intro conjI allI impI)
      fix i
      assume a: "pos s \<le> i \<and> i < pos (skip_line_tokens ln (s\<lparr>pos := pos s + 1\<rparr>))"
      show "i < length (toks s)"
      proof (cases "i = pos s")
        case True
        with \<open>pos s < length (toks s) \<and> line (toks s ! pos s) = ln\<close> show ?thesis by simp
      next
        case False
        with a ih show ?thesis by simp
      qed
      show "line (toks s ! i) = ln"
      proof (cases "i = pos s")
        case True
        with \<open>pos s < length (toks s) \<and> line (toks s ! pos s) = ln\<close> show ?thesis by simp
      next
        case False
        with a ih show ?thesis by simp
      qed
    next
      assume "pos (skip_line_tokens ln (s\<lparr>pos := pos s + 1\<rparr>)) < length (toks s)"
      with ih show "line (toks s ! pos (skip_line_tokens ln (s\<lparr>pos := pos s + 1\<rparr>))) \<noteq> ln"
        by simp
    qed
  next
    case False
    then have eq: "skip_line_tokens ln s = s"
      by (subst skip_line_tokens.simps) auto
    show ?thesis
      unfolding eq using False by auto
  qed
qed

lemma skip_line_tokens_sorted:
  assumes "sorted (map line (toks s))" "pos s < length (toks s)" "line (toks s ! pos s) = ln"
    and "pos (skip_line_tokens ln s) \<le> i" "i < length (toks s)"
  shows "ln < line (toks s ! i)"
proof -
  let ?p = "pos (skip_line_tokens ln s)"
  have le: "pos s \<le> ?p"
    using skip_line_tokens_frame [of ln s] by simp
  have p: "?p < length (toks s)"
    using assms(4,5) by simp
  then have ne: "line (toks s ! ?p) \<noteq> ln"
    using skip_line_tokens_run [of s ln] by simp
  have mono: "\<And>a b. a \<le> b \<Longrightarrow> b < length (toks s) \<Longrightarrow> line (toks s ! a) \<le> line (toks s ! b)"
  proof -
    fix a b
    assume "a \<le> b" "b < length (toks s)"
    then have "map line (toks s) ! a \<le> map line (toks s) ! b"
      using assms(1) by (simp add: sorted_iff_nth_mono)
    with \<open>a \<le> b\<close> \<open>b < length (toks s)\<close> show "line (toks s ! a) \<le> line (toks s ! b)"
      by simp
  qed
  have "ln \<le> line (toks s ! ?p)"
    using mono [OF le p] assms(3) by simp
  with ne have "ln < line (toks s ! ?p)"
    by simp
  moreover have "line (toks s ! ?p) \<le> line (toks s ! i)"
    using mono [OF assms(4,5)] .
  ultimately show ?thesis
    by simp
qed

lemma syn_error_eq:
  "syn_error msg s =
     skip_line_tokens (line (LA s))
       (s\<lparr>diag := diag s @ [(line (LA s), msg)], error_count := error_count s + 1\<rparr>)"
  by (simp add: syn_error_def LA_def Let_def)

lemma syn_error_frame:
  "toks (syn_error msg s) = toks s \<and> symtab (syn_error msg s) = symtab s \<and>
   cur_scope (syn_error msg s) = cur_scope s \<and>
   error_count (syn_error msg s) = error_count s + 1 \<and>
   pos s \<le> pos (syn_error msg s)"
  using skip_line_tokens_frame
          [of "line (LA s)"
              "s\<lparr>diag := diag s @ [(line (LA s), msg)], error_count := error_count s + 1\<rparr>"]
  by (simp add: syn_error_eq)

lemma syn_error_run:
  "(\<forall>i. pos s \<le> i \<and> i < pos (syn_error msg s) \<longrightarrow>
        i < length (toks s) \<and> line (toks s ! i) = line (LA s)) \<and>
   (pos (syn_error msg s) < length (toks s) \<longrightarrow>
        line (toks s ! pos (syn_error msg s)) \<noteq> line (LA s))"
  using skip_line_tokens_run
          [of "s\<lparr>diag := diag s @ [(line (LA s), msg)], error_count := error_count s + 1\<rparr>"
              "line (LA s)"]
  by (simp add: syn_error_eq)

lemma syn_error_sorted:
  assumes "sorted (map line (toks s))" "pos (syn_error msg s) \<le> i" "i < length (toks s)"
  shows "line (LA s) < line (toks s ! i)"
proof -
  have "pos s \<le> pos (syn_error msg s)"
    using syn_error_frame by simp
  with assms(2,3) have p: "pos s < length (toks s)"
    by simp
  then have l: "line (toks s ! pos s) = line (LA s)"
    by (simp add: LA_def)
  show ?thesis
    using skip_line_tokens_sorted
            [of "s\<lparr>diag := diag s @ [(line (LA s), msg)], error_count := error_count s + 1\<rparr>"
                "line (LA s)" i]
          assms p l
    by (simp add: syn_error_eq)
qed

lemma syn_error_variants:
  "pos s < length (toks s) \<Longrightarrow>
     sematic_syn_error msg s = syn_error msg s \<and> syntax_syn_error msg s = syn_error msg s"
  by (simp add: sematic_syn_error_def syntax_syn_error_def syntax_LA_def syn_error_def Let_def)

text \<open>
  C7, as the code has it. \<open>syn_error\<close> writes exactly one line, tagged with the line of the
  lookahead token (the sentinel's line at the end of input), counts one error, and moves
  the cursor forward over the unbroken run of tokens that starts at the cursor and carries
  that line number: every token passed has that line, and the cursor stops at the end of
  the array or at the first token whose line differs. When the line numbers of the array
  are in non-decreasing order, every token from the new cursor on has a later line, so no
  token of the offending line remains. Before the end of input the three files' \<open>syn_error\<close>
  agree.
\<close>

theorem C7_syn_error_skips_run:
  "diag (syn_error msg s) = diag s @ [(line (LA s), msg)] \<and>
   error_count (syn_error msg s) = error_count s + 1 \<and>
   toks (syn_error msg s) = toks s \<and>
   pos s \<le> pos (syn_error msg s) \<and>
   (\<forall>i. pos s \<le> i \<and> i < pos (syn_error msg s) \<longrightarrow>
        i < length (toks s) \<and> line (toks s ! i) = line (LA s)) \<and>
   (pos (syn_error msg s) < length (toks s) \<longrightarrow>
        line (toks s ! pos (syn_error msg s)) \<noteq> line (LA s)) \<and>
   (sorted (map line (toks s)) \<longrightarrow>
      (\<forall>i. pos (syn_error msg s) \<le> i \<and> i < length (toks s) \<longrightarrow>
           line (LA s) < line (toks s ! i))) \<and>
   (pos s < length (toks s) \<longrightarrow>
      sematic_syn_error msg s = syn_error msg s \<and> syntax_syn_error msg s = syn_error msg s)"
  using diag_syn_error [of msg s] syn_error_frame [of msg s] syn_error_run [of s msg]
        syn_error_sorted [of s msg] syn_error_variants [of s msg]
  by blast

text \<open>
  A declaration without its semicolon on line 1, the cursor on the token where the
  semicolon is missed; the next statement is on line 2.
\<close>

definition sorted_stream :: pstate where
  "sorted_stream =
     (init_state [mk_tok ''INT'' ''int'' 1, mk_tok ''IDENTIFIER'' ''x'' 1,
                  mk_tok ''IDENTIFIER'' ''y'' 1, mk_tok ''INT_CONST'' ''5'' 1,
                  mk_tok ''IDENTIFIER'' ''z'' 2, mk_tok ''SEMICOLON'' '';'' 2])\<lparr>pos := 2\<rparr>"

theorem C7_syn_error_skips_run_witness:
  "sorted (map line (toks sorted_stream)) \<and>
   pos sorted_stream < length (toks sorted_stream) \<and>
   diag (syn_error ''Semicolon expected'' sorted_stream) = [(1, ''Semicolon expected'')] \<and>
   pos (syn_error ''Semicolon expected'' sorted_stream) = 4 \<and>
   1 < line (toks sorted_stream ! 4) \<and> 1 < line (toks sorted_stream ! 5) \<and>
   sematic_syn_error ''Semicolon expected'' sorted_stream =
     syn_error ''Semicolon expected'' sorted_stream"
proof -
  have p: "pos (syn_error ''Semicolon expected'' sorted_stream) = 4"
    by (simp add: syn_error_def sorted_stream_def init_state_def mk_tok_def
          skip_line_tokens.simps)
  have l: "line (LA sorted_stream) = 1" "length (toks sorted_stream) = 6"
    by (simp_all add: LA_def sorted_stream_def init_state_def mk_tok_def)
  have s: "sorted (map line (toks sorted_stream))"
    by (simp add: sorted_stream_def init_state_def mk_tok_def)
  have d: "diag sorted_stream = []" "pos sorted_stream = 2"
    by (simp_all add: sorted_stream_def init_state_def)
  show ?thesis
    using C7_syn_error_skips_run [of "''Semicolon expected''" sorted_stream] p l s d
    by simp
qed

text \<open>
  The claim as stated fails when a later token carries the offending line again. The
  array below is what \<open>load_tokens\<close> of \<open>semantic_analyser.c\<close> makes of the rows that the
  tokenizer writes for the two lines \<open>"a 2" x\<close> and \<open>y ;\<close>: the row of the string constant
  is read as kind \<open>STRING_CONST\<close>, lexeme \<open>a\<close>, line 2. The error reported at the first token
  (line 2) moves the cursor by one; the tokens at 2 and 3 keep line 2 and are not skipped.
\<close>

definition unsorted_stream :: pstate where
  "unsorted_stream =
     init_state [mk_tok ''STRING_CONST'' ''a'' 2, mk_tok ''IDENTIFIER'' ''x'' 1,
                 mk_tok ''IDENTIFIER'' ''y'' 2, mk_tok ''SEMICOLON'' '';'' 2]"

theorem C7_unsorted_counterexample:
  "line (LA unsorted_stream) = 2 \<and>
   pos (syn_error ''Any keyword expected'' unsorted_stream) = 1 \<and>
   line (toks unsorted_stream ! 2) = 2 \<and>
   line (toks unsorted_stream ! pos (syn_error ''Any keyword expected'' unsorted_stream)) = 1"
  by (simp add: syn_error_def LA_def unsorted_stream_def init_state_def mk_tok_def
        skip_line_tokens.simps)

section \<open>Tokenizer: \<open>lexical_analyser.c\<close>\<close>

text \<open>
  The registers of the tokenizer: the characters of \<open>in\<close> not yet read, \<open>line_no\<close>, the
  rows written to \<open>out\<close> after the header (token, lexeme, line) and the lines written to
  standard error (line, message). \<open>fgetc\<close> returning \<open>EOF\<close> is \<open>None\<close>.
\<close>

record lstate =
  input :: string
  line_no :: int
  rows :: "(string \<times> string \<times> int) list"
  lerr :: "(int \<times> string) list"

definition NL :: char where
  "NL = CHR 0x0A"

definition DQUOTE :: char where
  "DQUOTE = CHR 0x22"

definition BACKSLASH :: char where
  "BACKSLASH = CHR 0x5C"

definition NUL :: char where
  "NUL = CHR 0x00"

text \<open>\<open>emit\<close> prints the lexeme with \<open>%s\<close>, which stops at the first zero byte.\<close>

definition emit :: "string \<Rightarrow> string \<Rightarrow> int \<Rightarrow> lstate \<Rightarrow> lstate" where
  "emit tok lx ln s = s\<lparr>rows := rows s @ [(tok, takeWhile (\<lambda>c. c \<noteq> NUL) lx, ln)]\<rparr>"

definition report :: "int \<Rightarrow> string \<Rightarrow> lstate \<Rightarrow> lstate" where
  "report ln msg s = s\<lparr>lerr := lerr s @ [(ln, msg)]\<rparr>"

definition getc_track :: "lstate \<Rightarrow> char option \<times> lstate" where
  "getc_track s =
     (case input s of
        [] \<Rightarrow> (None, s)
      | c # cs \<Rightarrow>
          (Some c, s\<lparr>input := cs, line_no := (if c = NL then line_no s + 1 else line_no s)\<rparr>))"

definition ungetc_track :: "char option \<Rightarrow> lstate \<Rightarrow> lstate" where
  "ungetc_track c s =
     (case c of
        None \<Rightarrow> s
      | Some d \<Rightarrow> s\<lparr>input := d # input s,
                     line_no := (if d = NL then line_no s - 1 else line_no s)\<rparr>)"

lemma getc_track_shorter:
  "getc_track s = (Some c, s1) \<Longrightarrow> length (input s1) < length (input s)"
  by (auto simp: getc_track_def split: list.splits)

text \<open>
  The loop of \<open>scan_string\<close>; \<open>buf\<close> holds the characters stored so far (\<open>i\<close> is its
  length, the array has 1024 bytes).
\<close>

function scan_string_loop :: "string \<Rightarrow> int \<Rightarrow> lstate \<Rightarrow> lstate" where
  "scan_string_loop buf start_line s =
     (case getc_track s of
        (None, s1) \<Rightarrow> report start_line ''String constants exceed line'' s1
      | (Some c, s1) \<Rightarrow>
          if c = NL then report start_line ''String constants exceed line'' s1
          else if c = DQUOTE then emit ''STRING_CONST'' buf start_line s1
          else if c = BACKSLASH then
            (case getc_track s1 of
               (None, s2) \<Rightarrow> report start_line ''String constants exceed line'' s2
             | (Some e, s2) \<Rightarrow>
                 if e = NL then report start_line ''String constants exceed line'' s2
                 else scan_string_loop
                        (if length buf < 1022 then buf @ [BACKSLASH, e] else buf) start_line s2)
          else scan_string_loop (if length buf < 1023 then buf @ [c] else buf) start_line s1)"
  by pat_completeness auto
termination
proof (relation "measure (\<lambda>(buf, start_line, s). length (input s))", goal_cases)
  case 1
  show ?case by simp
next
  case (2 buf start_line s x1 s1 c x2 s2 e)
  then have "getc_track s = (Some c, s1)" "getc_track s1 = (Some e, s2)"
    by simp_all
  then show ?case
    using getc_track_shorter [of s c s1] getc_track_shorter [of s1 e s2] by simp
next
  case (3 buf start_line s x1 s1 c)
  then have "getc_track s = (Some c, s1)"
    by simp
  then show ?case
    using getc_track_shorter [of s c s1] by simp
qed

declare scan_string_loop.simps [simp del]

definition scan_string :: "lstate \<Rightarrow> lstate" where
  "scan_string s = scan_string_loop [] (line_no s) s"

text \<open>
  Following the words of the specification, for comparison with \<open>scan_string\<close>: of the
  characters after the opening quote, a backslash and the character after it are one
  two-character unit, and the literal is closed when a quote outside such a unit comes
  before the end of the line and the end of the input.
\<close>

fun spec_string_closed :: "string \<Rightarrow> bool" where
  "spec_string_closed [] = False"
| "spec_string_closed (c # cs) =
     (if c = NL then False
      else if c = DQUOTE then True
      else if c = BACKSLASH then
        (case cs of [] \<Rightarrow> False | e # es \<Rightarrow> e \<noteq> NL \<and> spec_string_closed es)
      else spec_string_closed cs)"

text \<open>The input after the first newline; empty when there is none.\<close>

definition after_line :: "string \<Rightarrow> string" where
  "after_line cs = drop 1 (dropWhile (\<lambda>c. c \<noteq> NL) cs)"

lemma special_chars_distinct [simp]:
  "NL \<noteq> DQUOTE" "NL \<noteq> BACKSLASH" "DQUOTE \<noteq> BACKSLASH"
  "DQUOTE \<noteq> NL" "BACKSLASH \<noteq> NL" "BACKSLASH \<noteq> DQUOTE"
  by (simp_all add: NL_def DQUOTE_def BACKSLASH_def)

lemma scan_string_loop_nil:
  "input s = [] \<Longrightarrow>
     scan_string_loop buf l s = report l ''String constants exceed line'' s"
  by (subst scan_string_loop.simps) (simp add: getc_track_def)

lemma scan_string_loop_cons:
  "input s = c # cs \<Longrightarrow>
     scan_string_loop buf l s =
       (let s1 = s\<lparr>input := cs, line_no := (if c = NL then line_no s + 1 else line_no s)\<rparr> in
        if c = NL then report l ''String constants exceed line'' s1
        else if c = DQUOTE then emit ''STRING_CONST'' buf l s1
        else if c = BACKSLASH then
          (case cs of
             [] \<Rightarrow> report l ''String constants exceed line'' s1
           | e # es \<Rightarrow>
               if e = NL
               then report l ''String constants exceed line''
                      (s1\<lparr>input := es, line_no := line_no s1 + 1\<rparr>)
               else scan_string_loop (if length buf < 1022 then buf @ [BACKSLASH, e] else buf) l
                      (s1\<lparr>input := es\<rparr>))
        else scan_string_loop (if length buf < 1023 then buf @ [c] else buf) l s1)"
  by (subst scan_string_loop.simps) (simp add: getc_track_def Let_def split: list.splits)


definition unclosed_result :: "int \<Rightarrow> lstate \<Rightarrow> lstate \<Rightarrow> bool" where
  "unclosed_result l s r \<longleftrightarrow>
     input r = after_line (input s) \<and>
     line_no r = line_no s + (if NL \<in> set (input s) then 1 else 0) \<and>
     rows r = rows s \<and>
     lerr r = lerr s @ [(l, ''String constants exceed line'')]"

lemma scan_string_loop_unclosed:
  "\<not> spec_string_closed (input s) \<Longrightarrow> unclosed_result l s (scan_string_loop buf l s)"
proof (induction "length (input s)" arbitrary: s buf rule: less_induct)
  case less
  show ?case
  proof (cases "input s")
    case Nil
    then show ?thesis
      by (simp add: scan_string_loop_nil unclosed_result_def report_def after_line_def)
  next
    case (Cons c cs)
    note in_s = Cons
    from less.prems in_s have nc: "\<not> spec_string_closed (c # cs)"
      by simp
    show ?thesis
    proof (cases "c = NL")
      case True
      with in_s show ?thesis
        by (simp add: scan_string_loop_cons unclosed_result_def report_def after_line_def)
    next
      case nnl: False
      with nc have nq: "c \<noteq> DQUOTE"
        by auto
      show ?thesis
      proof (cases "c = BACKSLASH")
        case bs: True
        show ?thesis
        proof (cases cs)
          case Nil
          with in_s bs show ?thesis
            by (simp add: scan_string_loop_cons unclosed_result_def report_def after_line_def)
        next
          case (Cons e es)
          show ?thesis
          proof (cases "e = NL")
            case True
            with in_s bs Cons show ?thesis
              by (simp add: scan_string_loop_cons unclosed_result_def report_def after_line_def)
          next
            case False
            let ?s2 = "s\<lparr>input := es\<rparr>"
            let ?b = "if length buf < 1022 then buf @ [BACKSLASH, e] else buf"
            have step: "scan_string_loop buf l s = scan_string_loop ?b l ?s2"
              using in_s bs Cons False by (simp add: scan_string_loop_cons)
            have "\<not> spec_string_closed (input ?s2)"
              using nc bs Cons False by simp
            moreover have "length (input ?s2) < length (input s)"
              using in_s Cons by simp
            ultimately have "unclosed_result l ?s2 (scan_string_loop ?b l ?s2)"
              using less.hyps [of ?s2 ?b] by blast
            then show ?thesis
              unfolding step using in_s bs Cons False
              by (simp add: unclosed_result_def after_line_def)
          qed
        qed
      next
        case nbs: False
        let ?s1 = "s\<lparr>input := cs\<rparr>"
        let ?b = "if length buf < 1023 then buf @ [c] else buf"
        have step: "scan_string_loop buf l s = scan_string_loop ?b l ?s1"
          using in_s nnl nq nbs by (simp add: scan_string_loop_cons)
        have "\<not> spec_string_closed (input ?s1)"
          using nc nnl nq nbs by simp
        moreover have "length (input ?s1) < length (input s)"
          using in_s by simp
        ultimately have "unclosed_result l ?s1 (scan_string_loop ?b l ?s1)"
          using less.hyps [of ?s1 ?b] by blast
        then show ?thesis
          unfolding step using in_s nnl
          by (simp add: unclosed_result_def after_line_def)
      qed
    qed
  qed
qed

lemma no_quote_unclosed:
  "DQUOTE \<notin> set (takeWhile (\<lambda>c. c \<noteq> NL) cs) \<Longrightarrow> \<not> spec_string_closed cs"
proof (induction cs rule: spec_string_closed.induct)
  case 1
  show ?case by simp
next
  case (2 c cs)
  show ?case
  proof (cases cs)
    case Nil
    with 2 show ?thesis by (auto split: if_splits)
  next
    case (Cons e es)
    with 2 show ?thesis by (auto split: if_splits)
  qed
qed

text \<open>
  C9. \<open>scan_string\<close> is entered after the opening quote is read. When the characters that
  follow reach the end of the line or of the input before a closing quote, it writes the
  one line \<open>String constants exceed line\<close> with the line number it was entered at, writes
  no row to the token file, and leaves the input just after that newline (or at its end).
  In particular this is so when no quote at all stands before the end of the line.
\<close>

theorem C9_unterminated_string:
  "(\<not> spec_string_closed (input s) \<longrightarrow>
      rows (scan_string s) = rows s \<and>
      lerr (scan_string s) = lerr s @ [(line_no s, ''String constants exceed line'')] \<and>
      input (scan_string s) = after_line (input s) \<and>
      line_no (scan_string s) = line_no s + (if NL \<in> set (input s) then 1 else 0)) \<and>
   (DQUOTE \<notin> set (takeWhile (\<lambda>c. c \<noteq> NL) (input s)) \<longrightarrow>
      \<not> spec_string_closed (input s))"
  using scan_string_loop_unclosed [of s "line_no s" "[]"] no_quote_unclosed [of "input s"]
  by (simp add: scan_string_def unclosed_result_def)

text \<open>The input \<open>"abc\<close>, newline, \<open>x\<close>, after its opening quote is read on line 1.\<close>

definition abc_state :: lstate where
  "abc_state = \<lparr>input = ''abc'' @ [NL] @ ''x'', line_no = 1, rows = [], lerr = []\<rparr>"

theorem C9_unterminated_string_witness:
  "DQUOTE \<notin> set (takeWhile (\<lambda>c. c \<noteq> NL) (input abc_state)) \<and>
   \<not> spec_string_closed (input abc_state) \<and>
   rows (scan_string abc_state) = [] \<and>
   lerr (scan_string abc_state) = [(1, ''String constants exceed line'')] \<and>
   input (scan_string abc_state) = ''x'' \<and>
   line_no (scan_string abc_state) = 2"
  using C9_unterminated_string [of abc_state]
  by (simp add: abc_state_def after_line_def NL_def DQUOTE_def)

section \<open>Grammar functions of \<open>semantic_analyser.c\<close>\<close>

text \<open>
  \<open>atoi\<close> on a lexeme, as the C library computes it, \<open>(int) strtol(str, NULL, 10)\<close>:
  leading white space, an optional sign, then the decimal digits up to the first other
  character; \<open>strtol\<close> keeps the value within the 64-bit range of \<open>long\<close>, and the
  conversion to the 32-bit \<open>int\<close> wraps around.
\<close>

definition is_space :: "char \<Rightarrow> bool" where
  "is_space c \<longleftrightarrow> c = CHR '' '' \<or> (9 \<le> (of_char c :: nat) \<and> (of_char c :: nat) \<le> 13)"

definition is_digit :: "char \<Rightarrow> bool" where
  "is_digit c \<longleftrightarrow> 48 \<le> (of_char c :: nat) \<and> (of_char c :: nat) \<le> 57"

fun digits_value :: "int \<Rightarrow> string \<Rightarrow> int" where
  "digits_value acc [] = acc"
| "digits_value acc (c # cs) =
     (if is_digit c then digits_value (acc * 10 + (int (of_char c) - 48)) cs else acc)"

definition strtol :: "string \<Rightarrow> int" where
  "strtol str =
     (let v = (case dropWhile is_space str of
                 [] \<Rightarrow> 0
               | c # cs \<Rightarrow>
                   if c = CHR ''-'' then - digits_value 0 cs
                   else if c = CHR ''+'' then digits_value 0 cs
                   else digits_value 0 (c # cs))
      in max (- (2 ^ 63)) (min (2 ^ 63 - 1) v))"

definition to_int32 :: "int \<Rightarrow> int" where
  "to_int32 v = (v + 2 ^ 31) mod 2 ^ 32 - 2 ^ 31"

definition atoi :: "string \<Rightarrow> int" where
  "atoi str = to_int32 (strtol str)"

text \<open>
  The statement \<open>if (!match(kind, NULL)) syn_error(msg);\<close>, which the grammar functions
  repeat for every mandatory token.
\<close>

definition expect :: "string \<Rightarrow> string \<Rightarrow> pstate \<Rightarrow> pstate" where
  "expect kind msg s =
     (case match kind s of
        (None, s1) \<Rightarrow> syn_error msg s1
      | (Some a, s1) \<Rightarrow> s1)"

text \<open>\<open>type_specifier(out_type)\<close>: \<open>Some ty\<close> is the return value 1 with \<open>out_type = ty\<close>.\<close>

definition type_specifier :: "pstate \<Rightarrow> string option \<times> pstate" where
  "type_specifier s =
     (let t = LA s in
      if \<not> is_type_token (token t) then (None, s)
      else (Some (norm_type_token (token t)), snd (consume s)))"

text \<open>\<open>array_opt(&size_out)\<close>: the return value, \<open>*size_out\<close> and the state.\<close>

definition array_opt :: "pstate \<Rightarrow> bool \<times> int \<times> pstate" where
  "array_opt s =
     (let t = LA s in
      if token t \<noteq> ''LBRACKET'' then (False, 0, s)
      else
        let s1 = snd (consume s); t = LA s1 in
        if token t = ''INT_CONST''
        then (True, atoi (lexeme t), expect ''RBRACKET'' ''Right bracket expected'' (snd (consume s1)))
        else (True, 0, expect ''RBRACKET'' ''Right bracket expected'' s1))"

definition init_opt :: "string \<Rightarrow> int \<Rightarrow> pstate \<Rightarrow> bool \<times> pstate" where
  "init_opt typestr ln s =
     (let t = LA s in
      if token t \<noteq> ''ASSIGN'' then (False, s)
      else
        let s1 = snd (consume s); t = LA s1 in
        if token t \<noteq> ''INT_CONST'' \<and> token t \<noteq> ''CHAR_CONST''
        then (False, syn_error ''Identifier or integer constant expected'' s1)
        else
          let ctype = const_token_type t; dtype = str_to_type typestr;
              s2 = (if ctype \<noteq> TYPE_ERROR \<and> dtype \<noteq> TYPE_ERROR \<and> ctype \<noteq> dtype
                    then semantic_error ''Type mismatch in statement or expression.'' (line t) s1
                    else s1)
          in (True, snd (consume s2)))"

definition init_declarator :: "string \<Rightarrow> pstate \<Rightarrow> pstate" where
  "init_declarator typestr s =
     (case match ''IDENTIFIER'' s of
        (None, s1) \<Rightarrow> syn_error ''Identifier expected'' s1
      | (Some ident, s1) \<Rightarrow>
          let a = array_opt s1;
              i = init_opt typestr (line ident) (snd (snd a))
          in add_symbol (lexeme ident) typestr (cur_scope (snd i)) (fst (snd a)) (line ident) (snd i))"

section \<open>What every grammar function preserves\<close>

text \<open>
  \<open>extends s s'\<close>: the token array is the same, the cursor has not moved back, the scope
  register is the same, and the symbol table and the diagnostics have only grown at the end.
\<close>

definition extends :: "pstate \<Rightarrow> pstate \<Rightarrow> bool" where
  "extends s s' \<longleftrightarrow>
     toks s' = toks s \<and> pos s \<le> pos s' \<and> cur_scope s' = cur_scope s \<and>
     prefix (symtab s) (symtab s') \<and> prefix (diag s) (diag s')"

lemma extends_refl [simp]: "extends s s"
  by (simp add: extends_def)

lemma extends_trans [trans]: "extends a b \<Longrightarrow> extends b c \<Longrightarrow> extends a c"
  by (auto simp: extends_def)

lemma extends_semantic_error [simp]: "extends s (semantic_error msg ln s)"
  by (simp add: extends_def semantic_error_def)

lemma extends_consume [simp]: "extends s (snd (consume s))"
  by (simp add: extends_def consume_def Let_def)

lemma extends_match [simp]: "extends s (snd (match kind s))"
  by (simp add: match_def Let_def)

lemma extends_syn_error [simp]: "extends s (syn_error msg s)"
  using syn_error_frame [of msg s] by (simp add: extends_def diag_syn_error)

lemma extends_expect [simp]: "extends s (expect kind msg s)"
proof (cases "match kind s")
  case (Pair r s1)
  then have e: "extends s s1"
    using extends_match [of s kind] by simp
  show ?thesis
  proof (cases r)
    case None
    with Pair e show ?thesis
      using extends_trans [OF e extends_syn_error [of s1 msg]] by (simp add: expect_def)
  next
    case (Some a)
    with Pair e show ?thesis
      by (simp add: expect_def)
  qed
qed

lemma extends_add_symbol [simp]: "extends s (add_symbol name ty scope arrsz ln s)"
  by (simp add: add_symbol_def extends_def semantic_error_def)

lemma extends_apply_binary_op [simp]: "extends s (snd (apply_binary_op op l r ln s))"
  by (simp add: apply_binary_op_def)

lemma extends_rhs_operand: "rhs_operand s = Some (t, s') \<Longrightarrow> extends s s'"
proof -
  assume a: "rhs_operand s = Some (t, s')"
  have "extends s (snd (consume (semantic_error ''Undeclared identifier.'' (line (LA s)) s)))"
    using extends_trans [OF extends_semantic_error extends_consume] .
  with a show ?thesis
    by (auto simp: rhs_operand_def Let_def split: if_splits option.splits)
qed

lemma extends_expr_loop: "extends s (snd (expr_loop cur s))"
proof (induction cur s rule: expr_loop.induct)
  case (1 cur_type s)
  show ?case
  proof (cases "is_operator (token (LA s))")
    case False
    then show ?thesis
      by (subst expr_loop.simps) simp
  next
    case op: True
    show ?thesis
    proof (cases "rhs_operand (snd (consume s))")
      case None
      with op show ?thesis
        using extends_trans [OF extends_consume extends_syn_error]
        by (subst expr_loop.simps) simp
    next
      case (Some r)
      obtain rhs_type s2 where r: "r = (rhs_type, s2)"
        by (cases r)
      let ?a = "apply_binary_op (token (LA s)) cur_type rhs_type (line (LA s)) s2"
      have "extends s (snd (consume s))"
        by simp
      also have "extends (snd (consume s)) s2"
        using extends_rhs_operand Some r by simp
      also have "extends s2 (snd ?a)"
        by simp
      also have "extends (snd ?a) (snd (expr_loop (fst ?a) (snd ?a)))"
        using 1 [OF refl _ Some r [symmetric]] op by simp
      finally show ?thesis
        using op Some r by (subst expr_loop.simps) (simp add: Let_def)
    qed
  qed
qed

lemma extends_expression_if_any: "extends s (snd (expression_if_any s))"
proof -
  have a: "\<And>t. extends s (snd (expr_loop t (snd (consume s))))"
    using extends_trans [OF extends_consume extends_expr_loop] .
  have b: "\<And>t m l. extends s (snd (expr_loop t (snd (consume (semantic_error m l s)))))"
    using extends_trans [OF extends_semantic_error
            extends_trans [OF extends_consume extends_expr_loop]] .
  show ?thesis
    using a b by (simp add: expression_if_any_def Let_def split: option.splits)
qed

lemma extends_type_specifier [simp]: "extends s (snd (type_specifier s))"
  by (simp add: type_specifier_def Let_def)

lemma extends_array_opt [simp]: "extends s (snd (snd (array_opt s)))"
proof -
  have "extends s (expect ''RBRACKET'' ''Right bracket expected'' (snd (consume s)))"
    using extends_trans [OF extends_consume extends_expect] .
  moreover
  have "extends s (expect ''RBRACKET'' ''Right bracket expected'' (snd (consume (snd (consume s)))))"
    using extends_trans [OF extends_consume extends_trans [OF extends_consume extends_expect]] .
  ultimately show ?thesis
    by (simp add: array_opt_def Let_def)
qed

lemma extends_init_opt [simp]: "extends s (snd (init_opt typestr ln s))"
proof -
  have "extends s (syn_error ''Identifier or integer constant expected'' (snd (consume s)))"
    using extends_trans [OF extends_consume extends_syn_error] .
  moreover have "extends s (snd (consume (snd (consume s))))"
    using extends_trans [OF extends_consume extends_consume] .
  moreover have "\<And>m l. extends s (snd (consume (semantic_error m l (snd (consume s)))))"
    using extends_trans [OF extends_consume
            extends_trans [OF extends_semantic_error extends_consume]] .
  ultimately show ?thesis
    by (simp add: init_opt_def Let_def)
qed

lemma extends_init_declarator [simp]: "extends s (init_declarator typestr s)"
proof (cases "match ''IDENTIFIER'' s")
  case (Pair r s1)
  then have e: "extends s s1"
    using extends_match [of s "''IDENTIFIER''"] by simp
  show ?thesis
  proof (cases r)
    case None
    with Pair show ?thesis
      using extends_trans [OF e extends_syn_error] by (simp add: init_declarator_def)
  next
    case (Some ident)
    let ?a = "array_opt s1"
    let ?i = "init_opt typestr (line ident) (snd (snd ?a))"
    have "extends s s1"
      by (rule e)
    also have "extends s1 (snd (snd ?a))"
      by simp
    also have "extends (snd (snd ?a)) (snd ?i)"
      by simp
    also have "extends (snd ?i)
        (add_symbol (lexeme ident) typestr (cur_scope (snd ?i)) (fst (snd ?a)) (line ident) (snd ?i))"
      by simp
    finally show ?thesis
      using Pair Some by (simp add: init_declarator_def Let_def)
  qed
qed

section \<open>Declarations and statements of \<open>semantic_analyser.c\<close>\<close>

lemma LA_in_range: "token (LA s) \<noteq> ''EOF'' \<Longrightarrow> pos s < length (toks s)"
  by (auto simp: LA_def eof_tok_def split: if_splits)

lemma match_Some:
  "match kind s = (Some a, s1) \<Longrightarrow> kind \<noteq> ''EOF'' \<Longrightarrow>
     pos s < length (toks s) \<and> a = LA s \<and> token a = kind \<and> s1 = s\<lparr>pos := pos s + 1\<rparr>"
  using LA_in_range [of s]
  by (auto simp: match_def consume_def Let_def split: if_splits)

lemma match_None: "match kind s = (None, s1) \<Longrightarrow> s1 = s \<and> token (LA s) \<noteq> kind"
  by (auto simp: match_def Let_def split: if_splits)

text \<open>The \<open>while (match("COMMA", NULL))\<close> loop of \<open>init_declarator_list\<close>.\<close>

function init_declarator_loop :: "string \<Rightarrow> pstate \<Rightarrow> pstate" where
  "init_declarator_loop typestr s =
     (case match ''COMMA'' s of
        (None, s1) \<Rightarrow> s1
      | (Some c, s1) \<Rightarrow> init_declarator_loop typestr (init_declarator typestr s1))"
  by pat_completeness auto
termination
proof (relation "measure (\<lambda>(typestr, s). length (toks s) - pos s)", goal_cases)
  case 1
  show ?case by simp
next
  case (2 typestr s x1 s1 c)
  then have m: "match ''COMMA'' s = (Some c, s1)"
    by simp
  have a: "pos s < length (toks s) \<and> s1 = s\<lparr>pos := pos s + 1\<rparr>"
    using match_Some [OF m] by simp
  have "extends s1 (init_declarator typestr s1)"
    by simp
  with a show ?case
    by (auto simp: extends_def)
qed

declare init_declarator_loop.simps [simp del]

definition init_declarator_list :: "string \<Rightarrow> pstate \<Rightarrow> pstate" where
  "init_declarator_list typestr s = init_declarator_loop typestr (init_declarator typestr s)"

text \<open>The grammar function \<open>declaration\<close> (the name is reserved in Isabelle).\<close>

definition declaration_rule :: "string \<Rightarrow> pstate \<Rightarrow> pstate" where
  "declaration_rule typestr s =
     expect ''SEMICOLON'' ''Semicolon expected'' (init_declarator_list typestr s)"

definition expr_stmt :: "pstate \<Rightarrow> pstate" where
  "expr_stmt s =
     (let t = LA s in
      if token t = ''SEMICOLON'' then snd (consume s)
      else
        let s1 = (case expression_if_any s of
                    (None, s') \<Rightarrow> syn_error ''Identifier or integer constant expected'' s'
                  | (Some etype, s') \<Rightarrow> s')
        in expect ''SEMICOLON'' ''Semicolon expected'' s1)"

text \<open>
  The statement that \<open>if_stmt\<close>, \<open>while_stmt\<close> and \<open>for_stmt\<close> (middle clause) each contain:
  \<open>if (!expression_if_any(&cond_type)) syn_error(...); else if (cond_type != TYPE_INT &&
  cond_type != TYPE_ERROR) { Tok t = LA(); semantic_error(..., t.line); }\<close>.
\<close>

definition condition :: "pstate \<Rightarrow> pstate" where
  "condition s =
     (case expression_if_any s of
        (None, s1) \<Rightarrow> syn_error ''Identifier or integer constant expected'' s1
      | (Some cond_type, s1) \<Rightarrow>
          if cond_type \<noteq> TYPE_INT \<and> cond_type \<noteq> TYPE_ERROR
          then semantic_error ''Integer expected in conditional expression.'' (line (LA s1)) s1
          else s1)"

text \<open>
  The first and third clause of \<open>for_stmt\<close>:
  \<open>if (!expression_if_any(&e_type)) syn_error(...);\<close>.
\<close>

definition clause :: "pstate \<Rightarrow> pstate" where
  "clause s =
     (case expression_if_any s of
        (None, s1) \<Rightarrow> syn_error ''Identifier or integer constant expected'' s1
      | (Some e_type, s1) \<Rightarrow> s1)"

text \<open>
  The statement functions call each other; the first argument bounds the depth of the
  calls, and \<open>None\<close> is the result when the bound is reached. In \<open>statement\<close> the call
  \<open>type_specifier(ty)\<close> cannot return 0, since \<open>is_type_token\<close> was just tested.
\<close>

fun stmt_list_opt :: "nat \<Rightarrow> pstate \<Rightarrow> pstate option"
  and statement :: "nat \<Rightarrow> pstate \<Rightarrow> pstate option"
  and block :: "nat \<Rightarrow> pstate \<Rightarrow> pstate option"
  and if_stmt :: "nat \<Rightarrow> pstate \<Rightarrow> pstate option"
  and while_stmt :: "nat \<Rightarrow> pstate \<Rightarrow> pstate option"
  and for_stmt :: "nat \<Rightarrow> pstate \<Rightarrow> pstate option"
where
  "stmt_list_opt 0 s = None"
| "stmt_list_opt (Suc n) s =
     (let t = LA s in
      if token t = ''RBRACE'' \<or> token t = ''EOF'' then Some s
      else (case statement n s of None \<Rightarrow> None | Some s1 \<Rightarrow> stmt_list_opt n s1))"
| "statement 0 s = None"
| "statement (Suc n) s =
     (let t = LA s in
      if is_type_token (token t) then
        (case type_specifier s of
           (None, s1) \<Rightarrow> Some (declaration_rule [] s1)
         | (Some ty, s1) \<Rightarrow> Some (declaration_rule ty s1))
      else if token t = ''IF'' then if_stmt n s
      else if token t = ''WHILE'' then while_stmt n s
      else if token t = ''FOR'' then for_stmt n s
      else if token t = ''LBRACE'' then block n s
      else Some (expr_stmt s))"
| "block 0 s = None"
| "block (Suc n) s =
     (case match ''LBRACE'' s of
        (None, s1) \<Rightarrow> Some (syn_error ''{ expected'' s1)
      | (Some a, s1) \<Rightarrow>
          (case stmt_list_opt n s1 of
             None \<Rightarrow> None
           | Some s2 \<Rightarrow> Some (expect ''RBRACE'' ''} missing'' s2)))"
| "if_stmt 0 s = None"
| "if_stmt (Suc n) s =
     (case match ''IF'' s of
        (None, s1) \<Rightarrow> Some (syn_error ''IF expected'' s1)
      | (Some a, s1) \<Rightarrow>
          (case block n (expect ''RPAREN'' ''Closing parenthesis missing''
                          (condition (expect ''LPAREN'' ''Opening parenthesis missing'' s1))) of
             None \<Rightarrow> None
           | Some s2 \<Rightarrow>
               (case match ''ELSE'' s2 of
                  (None, s3) \<Rightarrow> Some s3
                | (Some b, s3) \<Rightarrow> block n s3)))"
| "while_stmt 0 s = None"
| "while_stmt (Suc n) s =
     (case match ''WHILE'' s of
        (None, s1) \<Rightarrow> Some (syn_error ''WHILE expected'' s1)
      | (Some a, s1) \<Rightarrow>
          block n (expect ''RPAREN'' ''Closing parenthesis missing''
                    (condition (expect ''LPAREN'' ''Opening parenthesis missing'' s1))))"
| "for_stmt 0 s = None"
| "for_stmt (Suc n) s =
     (case match ''FOR'' s of
        (None, s1) \<Rightarrow> Some (syn_error ''FOR expected'' s1)
      | (Some a, s1) \<Rightarrow>
          statement n
            (expect ''RPAREN'' ''Closing parenthesis missing''
              (clause
                (expect ''SEMICOLON'' ''Semicolon expected''
                  (condition
                    (expect ''SEMICOLON'' ''Semicolon expected''
                      (clause (expect ''LPAREN'' ''Opening parenthesis missing'' s1))))))))"

lemma extends_init_declarator_loop [simp]: "extends s (init_declarator_loop typestr s)"
proof (induction typestr s rule: init_declarator_loop.induct)
  case (1 typestr s)
  show ?case
  proof (cases "match ''COMMA'' s")
    case (Pair r s1)
    then have e: "extends s s1"
      using extends_match [of s "''COMMA''"] by simp
    show ?thesis
    proof (cases r)
      case None
      with Pair e show ?thesis
        by (subst init_declarator_loop.simps) simp
    next
      case (Some c)
      have "extends s s1"
        by (rule e)
      also have "extends s1 (init_declarator typestr s1)"
        by simp
      also have "extends (init_declarator typestr s1)
          (init_declarator_loop typestr (init_declarator typestr s1))"
        using 1 [OF Pair [symmetric] Some] .
      finally show ?thesis
        using Pair Some by (subst init_declarator_loop.simps) simp
    qed
  qed
qed

lemma extends_declaration_rule [simp]: "extends s (declaration_rule typestr s)"
proof -
  have "extends s (init_declarator typestr s)"
    by simp
  also have "extends (init_declarator typestr s) (init_declarator_list typestr s)"
    by (simp add: init_declarator_list_def)
  also have "extends (init_declarator_list typestr s) (declaration_rule typestr s)"
    by (simp add: declaration_rule_def)
  finally show ?thesis .
qed

section \<open>Program level of \<open>semantic_analyser.c\<close>\<close>

text \<open>
  \<open>global_decl_list\<close>. The step back \<open>pos--\<close> follows a \<open>consume\<close> that did advance, since
  the token consumed was a type token.
\<close>

function global_decl_list :: "pstate \<Rightarrow> pstate" where
  "global_decl_list s =
     (let t = LA s in
      if \<not> is_type_token (token t) then s
      else
        let ty = norm_type_token (token t); s1 = snd (consume s); t2 = LA s1 in
        if token t2 = ''MAIN'' then s1\<lparr>pos := pos s1 - 1\<rparr>
        else global_decl_list (declaration_rule ty s1))"
  by pat_completeness auto
termination
proof (relation "measure (\<lambda>s. length (toks s) - pos s)", goal_cases)
  case 1
  show ?case by simp
next
  case (2 s t ty s1 t2)
  then have "token (LA s) \<noteq> ''EOF''"
    by (auto simp: is_type_token_def)
  then have a: "pos s < length (toks s)"
    by (rule LA_in_range)
  have "extends (snd (consume s)) (declaration_rule ty (snd (consume s)))"
    by simp
  with a 2 show ?case
    by (auto simp: extends_def pos_consume)
qed

declare global_decl_list.simps [simp del]

text \<open>The \<open>for (;;)\<close> loop over the parameters inside \<open>function_def\<close>.\<close>

function param_loop :: "pstate \<Rightarrow> pstate" where
  "param_loop s =
     (case type_specifier s of
        (None, s1) \<Rightarrow> syn_error ''Any keyword expected'' s1
      | (Some pty, s1) \<Rightarrow>
          (case match ''IDENTIFIER'' s1 of
             (None, s2) \<Rightarrow> syn_error ''Identifier expected'' s2
           | (Some pid, s2) \<Rightarrow>
               (case match ''COMMA'' (add_symbol (lexeme pid) pty ''Main'' 0 (line pid) s2) of
                  (None, s4) \<Rightarrow> s4
                | (Some c, s4) \<Rightarrow> param_loop s4)))"
  by pat_completeness auto
termination
proof (relation "measure (\<lambda>s. length (toks s) - pos s)", goal_cases)
  case 1
  show ?case by simp
next
  case (2 s x1 s1 pty x2 s2 pid x3 s4 c)
  then have t: "type_specifier s = (Some pty, s1)"
    and m: "match ''IDENTIFIER'' s1 = (Some pid, s2)"
    and c: "match ''COMMA'' (add_symbol (lexeme pid) pty ''Main'' 0 (line pid) s2) = (Some c, s4)"
    by simp_all
  have e1: "extends s s1"
    using extends_type_specifier [of s] t by simp
  have a: "pos s1 < length (toks s1) \<and> s2 = s1\<lparr>pos := pos s1 + 1\<rparr>"
    using match_Some [OF m] by simp
  let ?s3 = "add_symbol (lexeme pid) pty ''Main'' 0 (line pid) s2"
  have e3: "extends s2 ?s3"
    by simp
  have e4: "extends ?s3 s4"
    using extends_match [of ?s3 "''COMMA''"] c by simp
  from e1 a e3 e4 show ?case
    by (auto simp: extends_def)
qed

declare param_loop.simps [simp del]

definition function_def :: "nat \<Rightarrow> string \<Rightarrow> pstate \<Rightarrow> pstate option" where
  "function_def n ret_type s =
     (case match ''MAIN'' s of
        (None, s1) \<Rightarrow> Some (syn_error ''MAIN expected'' s1)
      | (Some ident, s1) \<Rightarrow>
          let s2 = (add_symbol ''main'' ''Function'' ''Global'' 0 (line ident) s1)
                     \<lparr>cur_scope := ''Main''\<rparr>;
              s3 = expect ''LPAREN'' ''Opening parenthesis missing'' s2;
              t = LA s3;
              s4 = (if token t = ''VOID'' then snd (consume s3)
                    else if is_type_token (token t) then param_loop s3
                    else s3);
              s5 = expect ''RPAREN'' ''Closing parenthesis missing'' s4
          in (case block n s5 of
                None \<Rightarrow> None
              | Some s6 \<Rightarrow> Some (s6\<lparr>cur_scope := ''Global''\<rparr>)))"

definition program :: "nat \<Rightarrow> pstate \<Rightarrow> pstate option" where
  "program n s =
     (case type_specifier (global_decl_list s) of
        (None, s1) \<Rightarrow> Some (syn_error ''Any keyword expected'' s1)
      | (Some rtype, s1) \<Rightarrow> function_def n rtype s1)"

section \<open>Equations for running the parser on a token array\<close>

text \<open>
  The same functions with the results of \<open>match\<close>, \<open>type_specifier\<close> and
  \<open>expression_if_any\<close> taken apart by \<open>fst\<close> and \<open>snd\<close>: in this form the simplifier
  computes the result of a call before it enters the continuation.
\<close>

lemma expect_eval:
  "expect kind msg s =
     (let m = match kind s in
      case fst m of None \<Rightarrow> syn_error msg (snd m) | Some a \<Rightarrow> snd m)"
  by (auto simp: expect_def Let_def split: prod.splits option.splits)

lemma expr_loop_eval:
  "expr_loop cur_type s =
     (let op = LA s in
      if \<not> is_operator (token op) then (cur_type, s)
      else
        let r = rhs_operand (snd (consume s)) in
        case r of
          None \<Rightarrow> (cur_type, syn_error ''Identifier or integer constant expected'' (snd (consume s)))
        | Some p \<Rightarrow>
            (let a = apply_binary_op (token op) cur_type (fst p) (line op) (snd p)
             in expr_loop (fst a) (snd a)))"
  by (subst expr_loop.simps) (auto simp: Let_def split: option.splits prod.splits)

lemma init_declarator_eval:
  "init_declarator typestr s =
     (let m = match ''IDENTIFIER'' s in
      case fst m of
        None \<Rightarrow> syn_error ''Identifier expected'' (snd m)
      | Some ident \<Rightarrow>
          let a = array_opt (snd m);
              i = init_opt typestr (line ident) (snd (snd a))
          in add_symbol (lexeme ident) typestr (cur_scope (snd i)) (fst (snd a)) (line ident) (snd i))"
  by (auto simp: init_declarator_def Let_def split: prod.splits option.splits)

lemma init_declarator_loop_eval:
  "init_declarator_loop typestr s =
     (let m = match ''COMMA'' s in
      case fst m of
        None \<Rightarrow> snd m
      | Some c \<Rightarrow> init_declarator_loop typestr (init_declarator typestr (snd m)))"
  by (subst init_declarator_loop.simps) (auto simp: Let_def split: prod.splits option.splits)

lemma expr_stmt_eval:
  "expr_stmt s =
     (let t = LA s in
      if token t = ''SEMICOLON'' then snd (consume s)
      else
        let e = expression_if_any s;
            s1 = (case fst e of
                    None \<Rightarrow> syn_error ''Identifier or integer constant expected'' (snd e)
                  | Some etype \<Rightarrow> snd e)
        in expect ''SEMICOLON'' ''Semicolon expected'' s1)"
  by (auto simp: expr_stmt_def Let_def split: prod.splits option.splits)

lemma condition_eval:
  "condition s =
     (let e = expression_if_any s in
      case fst e of
        None \<Rightarrow> syn_error ''Identifier or integer constant expected'' (snd e)
      | Some cond_type \<Rightarrow>
          if cond_type \<noteq> TYPE_INT \<and> cond_type \<noteq> TYPE_ERROR
          then semantic_error ''Integer expected in conditional expression.''
                 (line (LA (snd e))) (snd e)
          else snd e)"
  by (auto simp: condition_def Let_def split: prod.splits option.splits)

lemma clause_eval:
  "clause s =
     (let e = expression_if_any s in
      case fst e of
        None \<Rightarrow> syn_error ''Identifier or integer constant expected'' (snd e)
      | Some e_type \<Rightarrow> snd e)"
  by (auto simp: clause_def Let_def split: prod.splits option.splits)

lemma stmt_list_opt_eval:
  "stmt_list_opt (Suc n) s =
     (let t = LA s in
      if token t = ''RBRACE'' \<or> token t = ''EOF'' then Some s
      else (let r = statement n s in case r of None \<Rightarrow> None | Some s1 \<Rightarrow> stmt_list_opt n s1))"
  by (simp add: Let_def)

lemma statement_eval:
  "statement (Suc n) s =
     (let t = LA s in
      if is_type_token (token t) then
        (let ts = type_specifier s in
         case fst ts of
           None \<Rightarrow> Some (declaration_rule [] (snd ts))
         | Some ty \<Rightarrow> Some (declaration_rule ty (snd ts)))
      else if token t = ''IF'' then if_stmt n s
      else if token t = ''WHILE'' then while_stmt n s
      else if token t = ''FOR'' then for_stmt n s
      else if token t = ''LBRACE'' then block n s
      else Some (expr_stmt s))"
  by (auto simp: Let_def split: prod.splits option.splits)

lemma block_eval:
  "block (Suc n) s =
     (let m = match ''LBRACE'' s in
      case fst m of
        None \<Rightarrow> Some (syn_error ''{ expected'' (snd m))
      | Some a \<Rightarrow>
          (let r = stmt_list_opt n (snd m) in
           case r of
             None \<Rightarrow> None
           | Some s2 \<Rightarrow> Some (expect ''RBRACE'' ''} missing'' s2)))"
  by (auto simp: Let_def split: prod.splits option.splits)

lemma if_stmt_eval:
  "if_stmt (Suc n) s =
     (let m = match ''IF'' s in
      case fst m of
        None \<Rightarrow> Some (syn_error ''IF expected'' (snd m))
      | Some a \<Rightarrow>
          (let r = block n (expect ''RPAREN'' ''Closing parenthesis missing''
                     (condition (expect ''LPAREN'' ''Opening parenthesis missing'' (snd m)))) in
           case r of
             None \<Rightarrow> None
           | Some s2 \<Rightarrow>
               (let e = match ''ELSE'' s2 in
                case fst e of None \<Rightarrow> Some (snd e) | Some b \<Rightarrow> block n (snd e))))"
  by (auto simp: Let_def split: prod.splits option.splits)

lemma while_stmt_eval:
  "while_stmt (Suc n) s =
     (let m = match ''WHILE'' s in
      case fst m of
        None \<Rightarrow> Some (syn_error ''WHILE expected'' (snd m))
      | Some a \<Rightarrow>
          block n (expect ''RPAREN'' ''Closing parenthesis missing''
                    (condition (expect ''LPAREN'' ''Opening parenthesis missing'' (snd m)))))"
  by (auto simp: Let_def split: prod.splits option.splits)

lemma for_stmt_eval:
  "for_stmt (Suc n) s =
     (let m = match ''FOR'' s in
      case fst m of
        None \<Rightarrow> Some (syn_error ''FOR expected'' (snd m))
      | Some a \<Rightarrow>
          statement n
            (expect ''RPAREN'' ''Closing parenthesis missing''
              (clause
                (expect ''SEMICOLON'' ''Semicolon expected''
                  (condition
                    (expect ''SEMICOLON'' ''Semicolon expected''
                      (clause (expect ''LPAREN'' ''Opening parenthesis missing'' (snd m)))))))))"
  by (auto simp: Let_def split: prod.splits option.splits)

lemma param_loop_eval:
  "param_loop s =
     (let ts = type_specifier s in
      case fst ts of
        None \<Rightarrow> syn_error ''Any keyword expected'' (snd ts)
      | Some pty \<Rightarrow>
          (let m = match ''IDENTIFIER'' (snd ts) in
           case fst m of
             None \<Rightarrow> syn_error ''Identifier expected'' (snd m)
           | Some pid \<Rightarrow>
               (let c = match ''COMMA'' (add_symbol (lexeme pid) pty ''Main'' 0 (line pid) (snd m)) in
                case fst c of None \<Rightarrow> snd c | Some d \<Rightarrow> param_loop (snd c))))"
  by (subst param_loop.simps) (auto simp: Let_def split: prod.splits option.splits)

lemma function_def_eval:
  "function_def n ret_type s =
     (let m = match ''MAIN'' s in
      case fst m of
        None \<Rightarrow> Some (syn_error ''MAIN expected'' (snd m))
      | Some ident \<Rightarrow>
          let s2 = (add_symbol ''main'' ''Function'' ''Global'' 0 (line ident) (snd m))
                     \<lparr>cur_scope := ''Main''\<rparr>;
              s3 = expect ''LPAREN'' ''Opening parenthesis missing'' s2;
              t = LA s3;
              s4 = (if token t = ''VOID'' then snd (consume s3)
                    else if is_type_token (token t) then param_loop s3
                    else s3);
              s5 = expect ''RPAREN'' ''Closing parenthesis missing'' s4;
              r = block n s5
          in (case r of
                None \<Rightarrow> None
              | Some s6 \<Rightarrow> Some (s6\<lparr>cur_scope := ''Global''\<rparr>)))"
  by (auto simp: function_def_def Let_def split: prod.splits option.splits)

lemma program_eval:
  "program n s =
     (let ts = type_specifier (global_decl_list s) in
      case fst ts of
        None \<Rightarrow> Some (syn_error ''Any keyword expected'' (snd ts))
      | Some rtype \<Rightarrow> function_def n rtype (snd ts))"
  by (auto simp: program_def Let_def split: prod.splits option.splits)

lemma rhs_operand_eval:
  "rhs_operand s =
     (let b = LA s in
      if token b = ''IDENTIFIER'' then
        (let l = lookup_symbol (lexeme b) s in
         case l of
           None \<Rightarrow>
             Some (TYPE_ERROR, snd (consume (semantic_error ''Undeclared identifier.'' (line b) s)))
         | Some sy \<Rightarrow> Some (str_to_type (sym_type sy), snd (consume s)))
      else if token b = ''INT_CONST'' \<or> token b = ''CHAR_CONST'' then
        Some (const_token_type b, snd (consume s))
      else None)"
  by (auto simp: rhs_operand_def Let_def split: option.splits)

lemma expression_if_any_eval:
  "expression_if_any s =
     (let a = LA s in
      if token a = ''IDENTIFIER'' then
        (let l = lookup_symbol (lexeme a) s in
         case l of
           None \<Rightarrow>
             (let r = expr_loop TYPE_ERROR
                        (snd (consume (semantic_error ''Undeclared identifier.'' (line a) s)))
              in (Some (fst r), snd r))
         | Some sy \<Rightarrow>
             (let r = expr_loop (str_to_type (sym_type sy)) (snd (consume s))
              in (Some (fst r), snd r)))
      else if token a = ''INT_CONST'' \<or> token a = ''CHAR_CONST'' then
        (let r = expr_loop (const_token_type a) (snd (consume s))
         in (Some (fst r), snd r))
      else (None, s))"
  by (auto simp: expression_if_any_def Let_def split: option.splits)

lemma lookup_symbol_eval:
  "lookup_symbol name s =
     (let c = find (\<lambda>e. sym_lexeme e = name \<and> sym_scope e = cur_scope s) (symtab s) in
      case c of
        Some e \<Rightarrow> Some e
      | None \<Rightarrow> find (\<lambda>e. sym_lexeme e = name \<and> sym_scope e = ''Global'') (symtab s))"
  by (simp add: lookup_symbol_def Let_def split: option.splits)

lemmas parser_eval =
  expect_eval expr_loop_eval init_declarator_eval init_declarator_loop_eval expr_stmt_eval
  condition_eval clause_eval stmt_list_opt_eval statement_eval block_eval if_stmt_eval
  while_stmt_eval for_stmt_eval param_loop_eval function_def_eval program_eval
  rhs_operand_eval expression_if_any_eval lookup_symbol_eval
  global_decl_list.simps skip_line_tokens.simps
  init_state_def mk_tok_def mk_sym_def LA_def consume_def match_def eof_tok_def
  is_type_token_def is_operator_def norm_type_token_def type_specifier_def
  str_to_type_def const_token_type_def type_codes
  array_opt_def init_opt_def init_declarator_list_def declaration_rule_def
  add_symbol_def declared_in_def MAXSYM_def syn_error_def semantic_error_def
  apply_binary_op_def Let_def

lemmas parser_simps =
  stmt_list_opt.simps(2) statement.simps(2) block.simps(2) if_stmt.simps(2)
  while_stmt.simps(2) for_stmt.simps(2)

section \<open>Frame properties of the statement functions\<close>

lemma extends_match_result: "match kind s = (r, s1) \<Longrightarrow> extends s s1"
  using extends_match [of s kind] by simp

lemma extends_type_specifier_result: "type_specifier s = (r, s1) \<Longrightarrow> extends s s1"
  using extends_type_specifier [of s] by simp

lemma extends_expression_result: "expression_if_any s = (r, s1) \<Longrightarrow> extends s s1"
  using extends_expression_if_any [of s] by simp

lemma extends_expr_stmt [simp]: "extends s (expr_stmt s)"
proof (cases "expression_if_any s")
  case (Pair r s1)
  then have e: "extends s s1"
    by (rule extends_expression_result)
  have a: "extends s (syn_error ''Identifier or integer constant expected'' s1)"
    using extends_trans [OF e extends_syn_error] .
  have "extends s (expect ''SEMICOLON'' ''Semicolon expected'' s1)"
    using extends_trans [OF e extends_expect] .
  moreover
  have "extends s (expect ''SEMICOLON'' ''Semicolon expected''
          (syn_error ''Identifier or integer constant expected'' s1))"
    using extends_trans [OF a extends_expect] .
  ultimately show ?thesis
    using Pair by (cases r) (simp_all add: expr_stmt_def Let_def)
qed

lemma extends_condition [simp]: "extends s (condition s)"
proof (cases "expression_if_any s")
  case (Pair r s1)
  then have e: "extends s s1"
    by (rule extends_expression_result)
  have "extends s (syn_error ''Identifier or integer constant expected'' s1)"
    using extends_trans [OF e extends_syn_error] .
  moreover
  have "extends s (semantic_error ''Integer expected in conditional expression.''
          (line (LA s1)) s1)"
    using extends_trans [OF e extends_semantic_error] .
  ultimately show ?thesis
    using Pair e by (cases r) (simp_all add: condition_def)
qed

lemma extends_clause [simp]: "extends s (clause s)"
proof (cases "expression_if_any s")
  case (Pair r s1)
  then have e: "extends s s1"
    by (rule extends_expression_result)
  have "extends s (syn_error ''Identifier or integer constant expected'' s1)"
    using extends_trans [OF e extends_syn_error] .
  then show ?thesis
    using Pair e by (cases r) (simp_all add: clause_def)
qed

text \<open>Each of the following composes a step after a state already reached.\<close>

lemma extends_then_expect: "extends a s \<Longrightarrow> extends a (expect kind msg s)"
  using extends_trans [OF _ extends_expect] .

lemma extends_then_condition: "extends a s \<Longrightarrow> extends a (condition s)"
  using extends_trans [OF _ extends_condition] .

lemma extends_then_clause: "extends a s \<Longrightarrow> extends a (clause s)"
  using extends_trans [OF _ extends_clause] .

lemma extends_then_syn_error: "extends a s \<Longrightarrow> extends a (syn_error msg s)"
  using extends_trans [OF _ extends_syn_error] .

lemma extends_then_declaration: "extends a s \<Longrightarrow> extends a (declaration_rule ty s)"
  using extends_trans [OF _ extends_declaration_rule] .

lemma extends_then_match: "match kind s = (r, s1) \<Longrightarrow> extends a s \<Longrightarrow> extends a s1"
  using extends_trans [OF _ extends_match_result] .

lemmas extends_then =
  extends_then_expect extends_then_condition extends_then_clause extends_then_syn_error
  extends_then_declaration

definition stmt_frame :: "nat \<Rightarrow> bool" where
  "stmt_frame n \<longleftrightarrow>
     (\<forall>s s'. stmt_list_opt n s = Some s' \<longrightarrow> extends s s') \<and>
     (\<forall>s s'. statement n s = Some s' \<longrightarrow> extends s s') \<and>
     (\<forall>s s'. block n s = Some s' \<longrightarrow> extends s s') \<and>
     (\<forall>s s'. if_stmt n s = Some s' \<longrightarrow> extends s s') \<and>
     (\<forall>s s'. while_stmt n s = Some s' \<longrightarrow> extends s s') \<and>
     (\<forall>s s'. for_stmt n s = Some s' \<longrightarrow> extends s s')"

lemma stmt_frame_0: "stmt_frame 0"
  by (simp add: stmt_frame_def)

lemma stmt_frame_Suc:
  assumes ih: "stmt_frame n"
  shows "stmt_frame (Suc n)"
proof -
  have L: "\<And>s s'. stmt_list_opt n s = Some s' \<Longrightarrow> extends s s'"
    and S: "\<And>s s'. statement n s = Some s' \<Longrightarrow> extends s s'"
    and B: "\<And>s s'. block n s = Some s' \<Longrightarrow> extends s s'"
    and I: "\<And>s s'. if_stmt n s = Some s' \<Longrightarrow> extends s s'"
    and W: "\<And>s s'. while_stmt n s = Some s' \<Longrightarrow> extends s s'"
    and F: "\<And>s s'. for_stmt n s = Some s' \<Longrightarrow> extends s s'"
    using ih by (auto simp: stmt_frame_def)
  have l: "extends s s'" if "stmt_list_opt (Suc n) s = Some s'" for s s'
  proof (cases "token (LA s) = ''RBRACE'' \<or> token (LA s) = ''EOF''")
    case True
    with that show ?thesis
      by (simp add: Let_def)
  next
    case False
    with that obtain s1 where "statement n s = Some s1" "stmt_list_opt n s1 = Some s'"
      by (auto simp: Let_def split: option.splits)
    then show ?thesis
      using extends_trans [OF S L] by blast
  qed
  have st: "extends s s'" if "statement (Suc n) s = Some s'" for s s'
  proof (cases "is_type_token (token (LA s))")
    case True
    obtain r s1 where ts: "type_specifier s = (r, s1)"
      by (cases "type_specifier s")
    then have "extends s s1"
      by (rule extends_type_specifier_result)
    then have "extends s (declaration_rule ty s1)" for ty
      by (rule extends_then_declaration)
    with that True ts show ?thesis
      by (cases r) (auto simp: Let_def)
  next
    case False
    with that show ?thesis
      using I W F B extends_expr_stmt [of s]
      by (auto simp: Let_def split: if_splits)
  qed
  have b: "extends s s'" if "block (Suc n) s = Some s'" for s s'
  proof (cases "match ''LBRACE'' s")
    case (Pair r s1)
    then have e: "extends s s1"
      by (rule extends_match_result)
    show ?thesis
    proof (cases r)
      case None
      with that Pair show ?thesis
        using extends_then_syn_error [OF e] by auto
    next
      case (Some a)
      with that Pair obtain s2 where s2: "stmt_list_opt n s1 = Some s2"
        and s': "s' = expect ''RBRACE'' ''} missing'' s2"
        by (auto split: option.splits)
      have "extends s s2"
        using extends_trans [OF e L [OF s2]] .
      then show ?thesis
        unfolding s' by (rule extends_then_expect)
    qed
  qed
  have i: "extends s s'" if "if_stmt (Suc n) s = Some s'" for s s'
  proof (cases "match ''IF'' s")
    case (Pair r s1)
    then have e: "extends s s1"
      by (rule extends_match_result)
    show ?thesis
    proof (cases r)
      case None
      with that Pair show ?thesis
        using extends_then_syn_error [OF e] by auto
    next
      case (Some a)
      let ?h = "expect ''RPAREN'' ''Closing parenthesis missing''
                  (condition (expect ''LPAREN'' ''Opening parenthesis missing'' s1))"
      have h: "extends s ?h"
        using e by (intro extends_then)
      from that Pair Some obtain s2 where s2: "block n ?h = Some s2"
        and r: "(case match ''ELSE'' s2 of (None, s3) \<Rightarrow> Some s3 | (Some b, s3) \<Rightarrow> block n s3) = Some s'"
        by (auto split: option.splits)
      have e2: "extends s s2"
        using extends_trans [OF h B [OF s2]] .
      obtain q s3 where m: "match ''ELSE'' s2 = (q, s3)"
        by (cases "match ''ELSE'' s2")
      have e3: "extends s s3"
        using extends_then_match [OF m e2] .
      show ?thesis
      proof (cases q)
        case None
        with r m e3 show ?thesis by simp
      next
        case (Some b)
        with r m have "block n s3 = Some s'"
          by simp
        then show ?thesis
          using extends_trans [OF e3 B] by blast
      qed
    qed
  qed
  have w: "extends s s'" if "while_stmt (Suc n) s = Some s'" for s s'
  proof (cases "match ''WHILE'' s")
    case (Pair r s1)
    then have e: "extends s s1"
      by (rule extends_match_result)
    show ?thesis
    proof (cases r)
      case None
      with that Pair show ?thesis
        using extends_then_syn_error [OF e] by auto
    next
      case (Some a)
      let ?h = "expect ''RPAREN'' ''Closing parenthesis missing''
                  (condition (expect ''LPAREN'' ''Opening parenthesis missing'' s1))"
      have h: "extends s ?h"
        using e by (intro extends_then)
      from that Pair Some have "block n ?h = Some s'"
        by simp
      then show ?thesis
        using extends_trans [OF h B] by blast
    qed
  qed
  have f: "extends s s'" if "for_stmt (Suc n) s = Some s'" for s s'
  proof (cases "match ''FOR'' s")
    case (Pair r s1)
    then have e: "extends s s1"
      by (rule extends_match_result)
    show ?thesis
    proof (cases r)
      case None
      with that Pair show ?thesis
        using extends_then_syn_error [OF e] by auto
    next
      case (Some a)
      let ?h = "expect ''RPAREN'' ''Closing parenthesis missing''
                 (clause
                   (expect ''SEMICOLON'' ''Semicolon expected''
                     (condition
                       (expect ''SEMICOLON'' ''Semicolon expected''
                         (clause (expect ''LPAREN'' ''Opening parenthesis missing'' s1))))))"
      have h: "extends s ?h"
        using e by (intro extends_then)
      from that Pair Some have "statement n ?h = Some s'"
        by simp
      then show ?thesis
        using extends_trans [OF h S] by blast
    qed
  qed
  from l st b i w f show ?thesis
    unfolding stmt_frame_def by blast
qed

lemma stmt_frame: "stmt_frame n"
  by (induction n) (simp_all add: stmt_frame_0 stmt_frame_Suc)

lemma extends_stmt_list_opt: "stmt_list_opt n s = Some s' \<Longrightarrow> extends s s'"
  using stmt_frame [of n] by (simp add: stmt_frame_def)

lemma extends_statement: "statement n s = Some s' \<Longrightarrow> extends s s'"
  using stmt_frame [of n] by (simp add: stmt_frame_def)

lemma extends_block: "block n s = Some s' \<Longrightarrow> extends s s'"
  using stmt_frame [of n] by (simp add: stmt_frame_def)

lemma extends_if_stmt: "if_stmt n s = Some s' \<Longrightarrow> extends s s'"
  using stmt_frame [of n] by (simp add: stmt_frame_def)

lemma extends_while_stmt: "while_stmt n s = Some s' \<Longrightarrow> extends s s'"
  using stmt_frame [of n] by (simp add: stmt_frame_def)

lemma extends_for_stmt: "for_stmt n s = Some s' \<Longrightarrow> extends s s'"
  using stmt_frame [of n] by (simp add: stmt_frame_def)

section \<open>Progress and termination of the statement functions\<close>

lemma syn_error_progress:
  assumes "pos s < length (toks s)"
  shows "pos s < pos (syn_error msg s)"
proof -
  let ?s0 = "s\<lparr>diag := diag s @ [(line (LA s), msg)], error_count := error_count s + 1\<rparr>"
  have l: "line (toks s ! pos s) = line (LA s)"
    using assms by (simp add: LA_def)
  have "skip_line_tokens (line (LA s)) ?s0 = skip_line_tokens (line (LA s)) (?s0\<lparr>pos := pos ?s0 + 1\<rparr>)"
    using assms l by (subst skip_line_tokens.simps) simp
  moreover have "pos (?s0\<lparr>pos := pos ?s0 + 1\<rparr>) \<le>
      pos (skip_line_tokens (line (LA s)) (?s0\<lparr>pos := pos ?s0 + 1\<rparr>))"
    using skip_line_tokens_frame [of "line (LA s)" "?s0\<lparr>pos := pos ?s0 + 1\<rparr>"] by blast
  ultimately show ?thesis
    by (simp add: syn_error_eq)
qed

lemma consume_progress: "pos s < length (toks s) \<Longrightarrow> pos (snd (consume s)) = pos s + 1"
  by (simp add: pos_consume)

lemma extends_pos: "extends s s' \<Longrightarrow> pos s \<le> pos s'"
  by (simp add: extends_def)

lemma extends_toks: "extends s s' \<Longrightarrow> toks s' = toks s"
  by (simp add: extends_def)

lemma expression_progress:
  assumes "expression_if_any s = (Some t, s1)"
  shows "pos s < pos s1"
proof -
  from assms have k: "token (LA s) = ''IDENTIFIER'' \<or> token (LA s) = ''INT_CONST'' \<or>
      token (LA s) = ''CHAR_CONST''"
    by (auto simp: expression_if_any_def Let_def split: if_splits)
  then have "token (LA s) \<noteq> ''EOF''"
    by auto
  then have p: "pos s < length (toks s)"
    by (rule LA_in_range)
  have a: "\<And>c. pos s < pos (snd (expr_loop c (snd (consume s))))"
    using extends_pos [OF extends_expr_loop] p
    by (metis consume_progress less_add_one less_le_trans)
  have b: "\<And>c m l. pos s < pos (snd (expr_loop c (snd (consume (semantic_error m l s)))))"
  proof -
    fix c m l
    have "pos (snd (consume (semantic_error m l s))) = pos s + 1"
      using p by (simp add: pos_consume)
    moreover have "pos (snd (consume (semantic_error m l s))) \<le>
        pos (snd (expr_loop c (snd (consume (semantic_error m l s)))))"
      by (rule extends_pos [OF extends_expr_loop])
    ultimately show "pos s < pos (snd (expr_loop c (snd (consume (semantic_error m l s)))))"
      by simp
  qed
  from assms a b show ?thesis
    by (auto simp: expression_if_any_def Let_def split: if_splits option.splits)
qed

lemma expr_stmt_progress:
  assumes p: "pos s < length (toks s)"
  shows "pos s < pos (expr_stmt s)"
proof (cases "token (LA s) = ''SEMICOLON''")
  case True
  with p show ?thesis
    by (simp add: expr_stmt_def pos_consume)
next
  case False
  obtain r s1 where e: "expression_if_any s = (r, s1)"
    by (cases "expression_if_any s")
  show ?thesis
  proof (cases r)
    case None
    with e have "s1 = s"
      by (auto simp: expression_if_any_def Let_def split: if_splits option.splits)
    then have "pos s < pos (syn_error ''Identifier or integer constant expected'' s1)"
      using syn_error_progress [OF p] by simp
    also have "\<dots> \<le> pos (expect ''SEMICOLON'' ''Semicolon expected''
        (syn_error ''Identifier or integer constant expected'' s1))"
      by (rule extends_pos [OF extends_expect])
    finally show ?thesis
      using False e None by (simp add: expr_stmt_def)
  next
    case (Some t)
    with e have "pos s < pos s1"
      using expression_progress by simp
    also have "\<dots> \<le> pos (expect ''SEMICOLON'' ''Semicolon expected'' s1)"
      by (rule extends_pos [OF extends_expect])
    finally show ?thesis
      using False e Some by (simp add: expr_stmt_def)
  qed
qed

lemma match_progress:
  assumes "match kind s = (Some a, s1)" "kind \<noteq> ''EOF''"
  shows "pos s < length (toks s) \<and> pos s1 = pos s + 1 \<and> toks s1 = toks s"
  using match_Some [OF assms] by auto

lemma block_progress:
  assumes "block n s = Some s'" "token (LA s) = ''LBRACE''"
  shows "pos s < pos s'"
proof (cases n)
  case 0
  with assms show ?thesis by simp
next
  case (Suc m)
  from assms(2) obtain s1 where m: "match ''LBRACE'' s = (Some (LA s), s1)"
    by (simp add: match_def Let_def)
  from assms(1) Suc m obtain s2 where s2: "stmt_list_opt m s1 = Some s2"
    and s': "s' = expect ''RBRACE'' ''} missing'' s2"
    by (auto split: option.splits)
  have "pos s < pos s1"
    using match_progress [OF m] by simp
  also have "\<dots> \<le> pos s2"
    by (rule extends_pos [OF extends_stmt_list_opt [OF s2]])
  also have "\<dots> \<le> pos s'"
    unfolding s' by (rule extends_pos [OF extends_expect])
  finally show ?thesis .
qed

lemma keyword_progress:
  assumes "match kind s = (Some a, s1)" "kind \<noteq> ''EOF''" "extends s1 s'"
  shows "pos s < pos s'"
  using match_progress [OF assms(1,2)] extends_pos [OF assms(3)] by simp

lemma if_stmt_progress:
  assumes "if_stmt n s = Some s'" "token (LA s) = ''IF''"
  shows "pos s < pos s'"
proof (cases n)
  case 0
  with assms show ?thesis by simp
next
  case (Suc m)
  from assms(2) obtain s1 where m: "match ''IF'' s = (Some (LA s), s1)"
    by (simp add: match_def Let_def)
  have "extends s s'"
    using assms(1) by (rule extends_if_stmt)
  have p: "pos s < length (toks s) \<and> s1 = s\<lparr>pos := pos s + 1\<rparr>"
    using match_Some [OF m] by simp
  let ?h = "expect ''RPAREN'' ''Closing parenthesis missing''
              (condition (expect ''LPAREN'' ''Opening parenthesis missing'' s1))"
  from assms(1) Suc m obtain s2 where s2: "block m ?h = Some s2"
    and r: "(case match ''ELSE'' s2 of (None, s3) \<Rightarrow> Some s3 | (Some b, s3) \<Rightarrow> block m s3) = Some s'"
    by (auto split: option.splits)
  have h: "extends s1 ?h"
    by (intro extends_then) simp
  have e2: "extends s1 s2"
    using extends_trans [OF h extends_block [OF s2]] .
  obtain q s3 where me: "match ''ELSE'' s2 = (q, s3)"
    by (cases "match ''ELSE'' s2")
  have e3: "extends s1 s3"
    using extends_then_match [OF me e2] .
  have "extends s1 s'"
  proof (cases q)
    case None
    with r me e3 show ?thesis by simp
  next
    case (Some b)
    with r me have "block m s3 = Some s'"
      by simp
    then show ?thesis
      using extends_trans [OF e3 extends_block] by blast
  qed
  then show ?thesis
    using keyword_progress [OF m] by simp
qed

lemma while_stmt_progress:
  assumes "while_stmt n s = Some s'" "token (LA s) = ''WHILE''"
  shows "pos s < pos s'"
proof (cases n)
  case 0
  with assms show ?thesis by simp
next
  case (Suc m)
  from assms(2) obtain s1 where m: "match ''WHILE'' s = (Some (LA s), s1)"
    by (simp add: match_def Let_def)
  let ?h = "expect ''RPAREN'' ''Closing parenthesis missing''
              (condition (expect ''LPAREN'' ''Opening parenthesis missing'' s1))"
  from assms(1) Suc m have b: "block m ?h = Some s'"
    by simp
  have h: "extends s1 ?h"
    by (intro extends_then) simp
  have "extends s1 s'"
    using extends_trans [OF h extends_block [OF b]] .
  then show ?thesis
    using keyword_progress [OF m] by simp
qed

lemma for_stmt_progress:
  assumes "for_stmt n s = Some s'" "token (LA s) = ''FOR''"
  shows "pos s < pos s'"
proof (cases n)
  case 0
  with assms show ?thesis by simp
next
  case (Suc m)
  from assms(2) obtain s1 where m: "match ''FOR'' s = (Some (LA s), s1)"
    by (simp add: match_def Let_def)
  let ?h = "expect ''RPAREN'' ''Closing parenthesis missing''
             (clause
               (expect ''SEMICOLON'' ''Semicolon expected''
                 (condition
                   (expect ''SEMICOLON'' ''Semicolon expected''
                     (clause (expect ''LPAREN'' ''Opening parenthesis missing'' s1))))))"
  from assms(1) Suc m have b: "statement m ?h = Some s'"
    by simp
  have h: "extends s1 ?h"
    by (intro extends_then) simp
  have "extends s1 s'"
    using extends_trans [OF h extends_statement [OF b]] .
  then show ?thesis
    using keyword_progress [OF m] by simp
qed

lemma statement_progress:
  assumes "statement n s = Some s'" "pos s < length (toks s)"
  shows "pos s < pos s'"
proof (cases n)
  case 0
  with assms show ?thesis by simp
next
  case (Suc m)
  show ?thesis
  proof (cases "is_type_token (token (LA s))")
    case True
    then have ts: "type_specifier s = (Some (norm_type_token (token (LA s))), snd (consume s))"
      by (simp add: type_specifier_def Let_def)
    with assms(1) Suc True
    have s': "s' = declaration_rule (norm_type_token (token (LA s))) (snd (consume s))"
      by (simp add: Let_def)
    have "pos s < pos (snd (consume s))"
      using assms(2) by (simp add: pos_consume)
    also have "\<dots> \<le> pos s'"
      unfolding s' by (rule extends_pos [OF extends_declaration_rule])
    finally show ?thesis .
  next
    case False
    with assms Suc show ?thesis
      using if_stmt_progress [of m s s'] while_stmt_progress [of m s s']
        for_stmt_progress [of m s s'] block_progress [of m s s'] expr_stmt_progress [of s]
      by (auto simp: Let_def split: if_splits)
  qed
qed
text \<open>The number of tokens from the cursor to the end of the array.\<close>

definition remaining :: "pstate \<Rightarrow> nat" where
  "remaining s = length (toks s) - pos s"

lemma remaining_extends: "extends s s' \<Longrightarrow> remaining s' \<le> remaining s"
  by (auto simp: remaining_def extends_def)

lemma remaining_match:
  "match kind s = (Some a, s1) \<Longrightarrow> kind \<noteq> ''EOF'' \<Longrightarrow> Suc (remaining s1) = remaining s"
  using match_progress [of kind s a s1] by (auto simp: remaining_def)

lemma remaining_statement:
  assumes "statement n s = Some s1" "pos s < length (toks s)"
  shows "remaining s1 < remaining s"
  using statement_progress [OF assms] extends_toks [OF extends_statement [OF assms(1)]] assms(2)
  by (simp add: remaining_def)

text \<open>
  A depth bound of three per remaining token, plus two, is enough for every statement
  function to return.
\<close>

definition stmt_total :: "nat \<Rightarrow> bool" where
  "stmt_total n \<longleftrightarrow>
     (\<forall>s. 3 * remaining s + 2 < n \<longrightarrow> stmt_list_opt n s \<noteq> None) \<and>
     (\<forall>s. 3 * remaining s + 1 < n \<longrightarrow> statement n s \<noteq> None) \<and>
     (\<forall>s. 3 * remaining s < n \<longrightarrow> block n s \<noteq> None) \<and>
     (\<forall>s. 3 * remaining s < n \<longrightarrow> if_stmt n s \<noteq> None) \<and>
     (\<forall>s. 3 * remaining s < n \<longrightarrow> while_stmt n s \<noteq> None) \<and>
     (\<forall>s. 3 * remaining s < n \<longrightarrow> for_stmt n s \<noteq> None)"

lemma stmt_total_0: "stmt_total 0"
  by (simp add: stmt_total_def)

lemma stmt_total_Suc:
  assumes ih: "stmt_total n"
  shows "stmt_total (Suc n)"
proof -
  have L: "\<And>s. 3 * remaining s + 2 < n \<Longrightarrow> stmt_list_opt n s \<noteq> None"
    and S: "\<And>s. 3 * remaining s + 1 < n \<Longrightarrow> statement n s \<noteq> None"
    and B: "\<And>s. 3 * remaining s < n \<Longrightarrow> block n s \<noteq> None"
    and I: "\<And>s. 3 * remaining s < n \<Longrightarrow> if_stmt n s \<noteq> None"
    and W: "\<And>s. 3 * remaining s < n \<Longrightarrow> while_stmt n s \<noteq> None"
    and F: "\<And>s. 3 * remaining s < n \<Longrightarrow> for_stmt n s \<noteq> None"
    using ih by (auto simp: stmt_total_def)
  have l: "stmt_list_opt (Suc n) s \<noteq> None" if b: "3 * remaining s + 2 < Suc n" for s
  proof (cases "token (LA s) = ''RBRACE'' \<or> token (LA s) = ''EOF''")
    case True
    then show ?thesis
      by (simp add: Let_def)
  next
    case False
    then have p: "pos s < length (toks s)"
      using LA_in_range by blast
    from b have "statement n s \<noteq> None"
      by (intro S) simp
    then obtain s1 where s1: "statement n s = Some s1"
      by blast
    have "remaining s1 < remaining s"
      using remaining_statement [OF s1 p] .
    with b have "stmt_list_opt n s1 \<noteq> None"
      by (intro L) simp
    with False s1 show ?thesis
      by (simp add: Let_def)
  qed
  have st: "statement (Suc n) s \<noteq> None" if b: "3 * remaining s + 1 < Suc n" for s
  proof -
    from b have c: "3 * remaining s < n"
      by simp
    show ?thesis
      using I [OF c] W [OF c] F [OF c] B [OF c]
      by (auto simp: Let_def split: prod.splits option.splits)
  qed
  have bl: "block (Suc n) s \<noteq> None" if b: "3 * remaining s < Suc n" for s
  proof (cases "match ''LBRACE'' s")
    case (Pair r s1)
    show ?thesis
    proof (cases r)
      case None
      with Pair show ?thesis by simp
    next
      case (Some a)
      have "Suc (remaining s1) = remaining s"
        using remaining_match Pair Some by simp
      with b have "stmt_list_opt n s1 \<noteq> None"
        by (intro L) simp
      with Pair Some show ?thesis
        by (auto split: option.splits)
    qed
  qed
  have i: "if_stmt (Suc n) s \<noteq> None" if b: "3 * remaining s < Suc n" for s
  proof (cases "match ''IF'' s")
    case (Pair r s1)
    show ?thesis
    proof (cases r)
      case None
      with Pair show ?thesis by simp
    next
      case (Some a)
      let ?h = "expect ''RPAREN'' ''Closing parenthesis missing''
                  (condition (expect ''LPAREN'' ''Opening parenthesis missing'' s1))"
      have r1: "Suc (remaining s1) = remaining s"
        using remaining_match Pair Some by simp
      have h: "extends s1 ?h"
        by (intro extends_then) simp
      have rh: "remaining ?h \<le> remaining s1"
        using remaining_extends [OF h] .
      with b r1 have "block n ?h \<noteq> None"
        by (intro B) simp
      then obtain s2 where s2: "block n ?h = Some s2"
        by blast
      have r2: "remaining s2 \<le> remaining s1"
        using remaining_extends [OF extends_block [OF s2]] rh by simp
      obtain q s3 where m: "match ''ELSE'' s2 = (q, s3)"
        by (cases "match ''ELSE'' s2")
      have "remaining s3 \<le> remaining s1"
        using remaining_extends [OF extends_match_result [OF m]] r2 by simp
      with b r1 have "block n s3 \<noteq> None"
        by (intro B) simp
      with Pair Some s2 m show ?thesis
        by (cases q) auto
    qed
  qed
  have w: "while_stmt (Suc n) s \<noteq> None" if b: "3 * remaining s < Suc n" for s
  proof (cases "match ''WHILE'' s")
    case (Pair r s1)
    show ?thesis
    proof (cases r)
      case None
      with Pair show ?thesis by simp
    next
      case (Some a)
      let ?h = "expect ''RPAREN'' ''Closing parenthesis missing''
                  (condition (expect ''LPAREN'' ''Opening parenthesis missing'' s1))"
      have r1: "Suc (remaining s1) = remaining s"
        using remaining_match Pair Some by simp
      have h: "extends s1 ?h"
        by (intro extends_then) simp
      have "remaining ?h \<le> remaining s1"
        using remaining_extends [OF h] .
      with b r1 have "block n ?h \<noteq> None"
        by (intro B) simp
      with Pair Some show ?thesis
        by simp
    qed
  qed
  have f: "for_stmt (Suc n) s \<noteq> None" if b: "3 * remaining s < Suc n" for s
  proof (cases "match ''FOR'' s")
    case (Pair r s1)
    show ?thesis
    proof (cases r)
      case None
      with Pair show ?thesis by simp
    next
      case (Some a)
      let ?h = "expect ''RPAREN'' ''Closing parenthesis missing''
                 (clause
                   (expect ''SEMICOLON'' ''Semicolon expected''
                     (condition
                       (expect ''SEMICOLON'' ''Semicolon expected''
                         (clause (expect ''LPAREN'' ''Opening parenthesis missing'' s1))))))"
      have r1: "Suc (remaining s1) = remaining s"
        using remaining_match Pair Some by simp
      have h: "extends s1 ?h"
        by (intro extends_then) simp
      have "remaining ?h \<le> remaining s1"
        using remaining_extends [OF h] .
      with b r1 have "statement n ?h \<noteq> None"
        by (intro S) simp
      with Pair Some show ?thesis
        by simp
    qed
  qed
  from l st bl i w f show ?thesis
    unfolding stmt_total_def by blast
qed

lemma stmt_total: "stmt_total n"
  by (induction n) (simp_all add: stmt_total_0 stmt_total_Suc)

lemma block_returns: "3 * remaining s < n \<Longrightarrow> \<exists>s'. block n s = Some s'"
  using stmt_total [of n] by (auto simp: stmt_total_def)

lemma statement_returns: "3 * remaining s + 1 < n \<Longrightarrow> \<exists>s'. statement n s = Some s'"
  using stmt_total [of n] by (auto simp: stmt_total_def)




text \<open>A larger bound does not change a result.\<close>

definition stmt_mono :: "nat \<Rightarrow> bool" where
  "stmt_mono n \<longleftrightarrow>
     (\<forall>s s'. stmt_list_opt n s = Some s' \<longrightarrow> stmt_list_opt (Suc n) s = Some s') \<and>
     (\<forall>s s'. statement n s = Some s' \<longrightarrow> statement (Suc n) s = Some s') \<and>
     (\<forall>s s'. block n s = Some s' \<longrightarrow> block (Suc n) s = Some s') \<and>
     (\<forall>s s'. if_stmt n s = Some s' \<longrightarrow> if_stmt (Suc n) s = Some s') \<and>
     (\<forall>s s'. while_stmt n s = Some s' \<longrightarrow> while_stmt (Suc n) s = Some s') \<and>
     (\<forall>s s'. for_stmt n s = Some s' \<longrightarrow> for_stmt (Suc n) s = Some s')"

lemma stmt_mono_0: "stmt_mono 0"
  by (simp add: stmt_mono_def)

lemma stmt_mono_Suc:
  assumes ih: "stmt_mono n"
  shows "stmt_mono (Suc n)"
proof -
  have L: "\<And>s s'. stmt_list_opt n s = Some s' \<Longrightarrow> stmt_list_opt (Suc n) s = Some s'"
    and S: "\<And>s s'. statement n s = Some s' \<Longrightarrow> statement (Suc n) s = Some s'"
    and B: "\<And>s s'. block n s = Some s' \<Longrightarrow> block (Suc n) s = Some s'"
    and I: "\<And>s s'. if_stmt n s = Some s' \<Longrightarrow> if_stmt (Suc n) s = Some s'"
    and W: "\<And>s s'. while_stmt n s = Some s' \<Longrightarrow> while_stmt (Suc n) s = Some s'"
    and F: "\<And>s s'. for_stmt n s = Some s' \<Longrightarrow> for_stmt (Suc n) s = Some s'"
    using ih unfolding stmt_mono_def by blast+
  have l: "stmt_list_opt (Suc (Suc n)) s = Some s'" if a: "stmt_list_opt (Suc n) s = Some s'" for s s'
  proof (cases "token (LA s) = ''RBRACE'' \<or> token (LA s) = ''EOF''")
    case True
    with a have "s' = s"
      by (simp add: stmt_list_opt_eval Let_def del: stmt_list_opt.simps)
    with True show ?thesis
      by (simp add: stmt_list_opt_eval [of "Suc n"] Let_def del: stmt_list_opt.simps)
  next
    case False
    with a obtain s1 where s1: "statement n s = Some s1" and s2: "stmt_list_opt n s1 = Some s'"
      by (auto simp: stmt_list_opt_eval Let_def simp del: stmt_list_opt.simps
               split: option.splits)
    from False S [OF s1] L [OF s2] show ?thesis
      by (simp add: stmt_list_opt_eval [of "Suc n"] Let_def
            del: stmt_list_opt.simps statement.simps)
  qed
  have st: "statement (Suc (Suc n)) s = Some s'" if a: "statement (Suc n) s = Some s'" for s s'
  proof -
    have e: "\<And>m. statement (Suc m) s =
        (if is_type_token (token (LA s)) then
           (case fst (type_specifier s) of
              None \<Rightarrow> Some (declaration_rule [] (snd (type_specifier s)))
            | Some ty \<Rightarrow> Some (declaration_rule ty (snd (type_specifier s))))
         else if token (LA s) = ''IF'' then if_stmt m s
         else if token (LA s) = ''WHILE'' then while_stmt m s
         else if token (LA s) = ''FOR'' then for_stmt m s
         else if token (LA s) = ''LBRACE'' then block m s
         else Some (expr_stmt s))"
      by (simp add: statement_eval Let_def del: statement.simps)
    show ?thesis
    proof (cases "is_type_token (token (LA s))")
      case True
      with a show ?thesis
        unfolding e [of n] e [of "Suc n"] by simp
    next
      case False
      with a I [of s s'] W [of s s'] F [of s s'] B [of s s'] show ?thesis
        unfolding e [of n] e [of "Suc n"]
        by (simp split: if_splits
              del: statement.simps if_stmt.simps while_stmt.simps for_stmt.simps block.simps)
    qed
  qed
  have b: "block (Suc (Suc n)) s = Some s'" if a: "block (Suc n) s = Some s'" for s s'
  proof (cases "fst (match ''LBRACE'' s)")
    case None
    with a show ?thesis
      by (simp add: block_eval Let_def del: block.simps)
  next
    case (Some t)
    with a obtain s2 where s2: "stmt_list_opt n (snd (match ''LBRACE'' s)) = Some s2"
      and s': "s' = expect ''RBRACE'' ''} missing'' s2"
      by (auto simp: block_eval Let_def simp del: block.simps split: option.splits)
    from Some L [OF s2] s' show ?thesis
      by (simp add: block_eval [of "Suc n"] Let_def del: block.simps stmt_list_opt.simps)
  qed
  have i: "if_stmt (Suc (Suc n)) s = Some s'" if a: "if_stmt (Suc n) s = Some s'" for s s'
  proof (cases "fst (match ''IF'' s)")
    case None
    with a show ?thesis
      by (simp add: if_stmt_eval Let_def del: if_stmt.simps)
  next
    case (Some t)
    let ?h = "expect ''RPAREN'' ''Closing parenthesis missing''
                (condition (expect ''LPAREN'' ''Opening parenthesis missing''
                   (snd (match ''IF'' s))))"
    from a Some obtain s2 where s2: "block n ?h = Some s2"
      and r: "(case fst (match ''ELSE'' s2) of
                 None \<Rightarrow> Some (snd (match ''ELSE'' s2))
               | Some b \<Rightarrow> block n (snd (match ''ELSE'' s2))) = Some s'"
      by (auto simp: if_stmt_eval Let_def simp del: if_stmt.simps split: option.splits)
    have r': "(case fst (match ''ELSE'' s2) of
                 None \<Rightarrow> Some (snd (match ''ELSE'' s2))
               | Some b \<Rightarrow> block (Suc n) (snd (match ''ELSE'' s2))) = Some s'"
      using r B by (cases "fst (match ''ELSE'' s2)") (simp_all del: block.simps)
    from Some B [OF s2] r' show ?thesis
      by (simp add: if_stmt_eval [of "Suc n"] Let_def del: if_stmt.simps block.simps)
  qed
  have w: "while_stmt (Suc (Suc n)) s = Some s'" if a: "while_stmt (Suc n) s = Some s'" for s s'
  proof (cases "fst (match ''WHILE'' s)")
    case None
    with a show ?thesis
      by (simp add: while_stmt_eval Let_def del: while_stmt.simps)
  next
    case (Some t)
    with a B show ?thesis
      by (simp add: while_stmt_eval Let_def del: while_stmt.simps block.simps)
  qed
  have f: "for_stmt (Suc (Suc n)) s = Some s'" if a: "for_stmt (Suc n) s = Some s'" for s s'
  proof (cases "fst (match ''FOR'' s)")
    case None
    with a show ?thesis
      by (simp add: for_stmt_eval Let_def del: for_stmt.simps)
  next
    case (Some t)
    with a S show ?thesis
      by (simp add: for_stmt_eval Let_def del: for_stmt.simps statement.simps)
  qed
  from l st b i w f show ?thesis
    unfolding stmt_mono_def by blast
qed

lemma stmt_mono: "stmt_mono n"
  by (induction n) (simp_all add: stmt_mono_0 stmt_mono_Suc)

lemma block_mono: "block n s = Some s' \<Longrightarrow> block (n + k) s = Some s'"
proof (induction k)
  case 0
  then show ?case by simp
next
  case (Suc k)
  then have "block (n + k) s = Some s'"
    by simp
  then have "block (Suc (n + k)) s = Some s'"
    using stmt_mono [of "n + k"] unfolding stmt_mono_def by blast
  then show ?case
    by (simp del: block.simps)
qed

section \<open>Grammar functions of \<open>sematic_analyser.c\<close>\<close>

text \<open>
  The second semantic analyser, file by file the same grammar, with its own \<open>syn_error\<close>,
  \<open>LA\<close>, \<open>consume\<close> and \<open>add_symbol\<close> (above) and the differences written out below:
  \<open>init_opt\<close> checks no type, \<open>global_decl_list\<close> looks ahead and steps back before it
  tests for \<open>MAIN\<close>, and \<open>function_def\<close> inserts no symbol for \<open>main\<close>, reads the
  parameters in scope \<open>Global\<close> and switches to \<open>Main\<close> only after the opening brace.
\<close>

definition sematic_match :: "string \<Rightarrow> pstate \<Rightarrow> Tok option \<times> pstate" where
  "sematic_match tk s =
     (let a = sematic_LA s
      in if token a = tk then (Some a, snd (sematic_consume s)) else (None, s))"

definition sematic_expect :: "string \<Rightarrow> string \<Rightarrow> pstate \<Rightarrow> pstate" where
  "sematic_expect kind msg s =
     (let m = sematic_match kind s in
      case fst m of None \<Rightarrow> sematic_syn_error msg (snd m) | Some a \<Rightarrow> snd m)"

definition sematic_type_specifier :: "pstate \<Rightarrow> string option \<times> pstate" where
  "sematic_type_specifier s =
     (let t = sematic_LA s in
      if \<not> is_type_token (token t) then (None, s)
      else (Some (norm_type_token (token t)), snd (sematic_consume s)))"

definition sematic_array_opt :: "pstate \<Rightarrow> bool \<times> int option \<times> pstate" where
  "sematic_array_opt s =
     (let m = sematic_match ''LBRACKET'' s in
      case fst m of
        None \<Rightarrow> (False, None, snd m)
      | Some a \<Rightarrow>
          (let n = sematic_match ''INT_CONST'' (snd m);
               sz = (case fst n of None \<Rightarrow> 0 | Some num \<Rightarrow> atoi (lexeme num))
           in (True, Some sz, sematic_expect ''RBRACKET'' ''Right bracket expected'' (snd n))))"

definition sematic_init_opt :: "pstate \<Rightarrow> bool \<times> pstate" where
  "sematic_init_opt s =
     (let m = sematic_match ''ASSIGN'' s in
      case fst m of
        None \<Rightarrow> (False, snd m)
      | Some a \<Rightarrow>
          (let t = sematic_LA (snd m) in
           if token t = ''INT_CONST'' \<or> token t = ''CHAR_CONST''
           then (True, snd (sematic_consume (snd m)))
           else (True, sematic_syn_error ''Identifier or integer constant expected'' (snd m))))"

text \<open>
  \<open>array_opt(&arrsz)\<close> writes \<open>*size_out\<close> only when it has read a bracket (\<open>Some\<close> above);
  \<open>arrsz\<close> starts as 0.
\<close>

definition sematic_init_declarator :: "string \<Rightarrow> pstate \<Rightarrow> pstate" where
  "sematic_init_declarator typestr s =
     (let m = sematic_match ''IDENTIFIER'' s in
      case fst m of
        None \<Rightarrow> sematic_syn_error ''Identifier expected'' (snd m)
      | Some ident \<Rightarrow>
          let a = sematic_array_opt (snd m);
              arrsz = (case fst (snd a) of None \<Rightarrow> 0 | Some sz \<Rightarrow> sz);
              i = sematic_init_opt (snd (snd a))
          in sematic_add_symbol (lexeme ident) typestr (cur_scope (snd i)) arrsz (snd i))"

lemma sematic_consume_eq: "snd (sematic_consume s) = snd (consume s)"
  by (simp add: sematic_consume_def consume_def Let_def)

lemma sematic_LA_token: "token (sematic_LA s) = token (LA s)"
  by (simp add: sematic_LA_def LA_def eof_tok_def sentinel_tok_def)

lemma sematic_LA_in_range: "token (sematic_LA s) \<noteq> ''EOF'' \<Longrightarrow> pos s < length (toks s)"
  using LA_in_range [of s] by (simp add: sematic_LA_token)

lemma extends_sematic_consume [simp]: "extends s (snd (sematic_consume s))"
  by (simp add: sematic_consume_eq)

lemma extends_sematic_match [simp]: "extends s (snd (sematic_match kind s))"
  by (simp add: sematic_match_def Let_def)

lemma sematic_match_Some:
  "fst (sematic_match kind s) = Some a \<Longrightarrow> kind \<noteq> ''EOF'' \<Longrightarrow>
     pos s < length (toks s) \<and> snd (sematic_match kind s) = s\<lparr>pos := pos s + 1\<rparr>"
  using sematic_LA_in_range [of s]
  by (auto simp: sematic_match_def sematic_consume_def Let_def split: if_splits)

lemma extends_skip_line_tokens: "extends s (skip_line_tokens ln s)"
  using skip_line_tokens_frame [of ln s] by (simp add: extends_def)

lemma extends_sematic_syn_error [simp]: "extends s (sematic_syn_error msg s)"
proof -
  let ?l = "line (if pos s < length (toks s) then toks s ! pos s else sentinel_tok)"
  let ?s0 = "s\<lparr>diag := diag s @ [(?l, msg)], error_count := error_count s + 1\<rparr>"
  have "extends s ?s0"
    by (simp add: extends_def)
  also have "extends ?s0 (skip_line_tokens ?l ?s0)"
    by (rule extends_skip_line_tokens)
  finally show ?thesis
    by (simp add: sematic_syn_error_def Let_def)
qed

lemma extends_sematic_expect [simp]: "extends s (sematic_expect kind msg s)"
proof (cases "fst (sematic_match kind s)")
  case None
  then show ?thesis
    using extends_trans [OF extends_sematic_match extends_sematic_syn_error]
    by (simp add: sematic_expect_def Let_def)
next
  case (Some a)
  then show ?thesis
    by (simp add: sematic_expect_def Let_def)
qed

lemma extends_sematic_add_symbol [simp]: "extends s (sematic_add_symbol name ty scope arrsz s)"
  by (simp add: sematic_add_symbol_def extends_def semantic_error_def)

lemma extends_sematic_type_specifier [simp]: "extends s (snd (sematic_type_specifier s))"
  by (simp add: sematic_type_specifier_def Let_def)

lemma extends_sematic_array_opt [simp]: "extends s (snd (snd (sematic_array_opt s)))"
proof (cases "fst (sematic_match ''LBRACKET'' s)")
  case None
  then show ?thesis
    by (simp add: sematic_array_opt_def Let_def)
next
  case (Some a)
  let ?m = "snd (sematic_match ''LBRACKET'' s)"
  have "extends s ?m"
    by simp
  also have "extends ?m (snd (sematic_match ''INT_CONST'' ?m))"
    by simp
  also have "extends (snd (sematic_match ''INT_CONST'' ?m))
      (sematic_expect ''RBRACKET'' ''Right bracket expected'' (snd (sematic_match ''INT_CONST'' ?m)))"
    by simp
  finally show ?thesis
    using Some by (simp add: sematic_array_opt_def Let_def)
qed

lemma extends_sematic_init_opt [simp]: "extends s (snd (sematic_init_opt s))"
proof (cases "fst (sematic_match ''ASSIGN'' s)")
  case None
  then show ?thesis
    by (simp add: sematic_init_opt_def Let_def)
next
  case (Some a)
  let ?m = "snd (sematic_match ''ASSIGN'' s)"
  have "extends s (snd (sematic_consume ?m))"
    using extends_trans [OF extends_sematic_match extends_sematic_consume] .
  moreover have "extends s (sematic_syn_error ''Identifier or integer constant expected'' ?m)"
    using extends_trans [OF extends_sematic_match extends_sematic_syn_error] .
  ultimately show ?thesis
    using Some by (simp add: sematic_init_opt_def Let_def)
qed

lemma extends_sematic_init_declarator [simp]: "extends s (sematic_init_declarator typestr s)"
proof (cases "fst (sematic_match ''IDENTIFIER'' s)")
  case None
  then show ?thesis
    using extends_trans [OF extends_sematic_match extends_sematic_syn_error]
    by (simp add: sematic_init_declarator_def Let_def)
next
  case (Some ident)
  let ?m = "snd (sematic_match ''IDENTIFIER'' s)"
  let ?a = "sematic_array_opt ?m"
  let ?i = "sematic_init_opt (snd (snd ?a))"
  have "extends s ?m"
    by simp
  also have "extends ?m (snd (snd ?a))"
    by simp
  also have "extends (snd (snd ?a)) (snd ?i)"
    by simp
  also have "extends (snd ?i) (sematic_add_symbol (lexeme ident) typestr (cur_scope (snd ?i))
      (case fst (snd ?a) of None \<Rightarrow> 0 | Some sz \<Rightarrow> sz) (snd ?i))"
    by simp
  finally show ?thesis
    using Some by (simp add: sematic_init_declarator_def Let_def)
qed

function sematic_init_declarator_loop :: "string \<Rightarrow> pstate \<Rightarrow> pstate" where
  "sematic_init_declarator_loop typestr s =
     (let m = sematic_match ''COMMA'' s in
      case fst m of
        None \<Rightarrow> snd m
      | Some c \<Rightarrow> sematic_init_declarator_loop typestr (sematic_init_declarator typestr (snd m)))"
  by pat_completeness auto
termination
proof (relation "measure (\<lambda>(typestr, s). length (toks s) - pos s)", goal_cases)
  case 1
  show ?case by simp
next
  case (2 typestr s m c)
  then have f: "fst (sematic_match ''COMMA'' s) = Some c"
    by simp
  have a: "pos s < length (toks s) \<and> snd (sematic_match ''COMMA'' s) = s\<lparr>pos := pos s + 1\<rparr>"
    using sematic_match_Some [OF f] by simp
  have "extends (snd (sematic_match ''COMMA'' s))
      (sematic_init_declarator typestr (snd (sematic_match ''COMMA'' s)))"
    by simp
  with a 2 show ?case
    by (auto simp: extends_def)
qed

declare sematic_init_declarator_loop.simps [simp del]

definition sematic_declaration :: "string \<Rightarrow> pstate \<Rightarrow> pstate" where
  "sematic_declaration typestr s =
     sematic_expect ''SEMICOLON'' ''Semicolon expected''
       (sematic_init_declarator_loop typestr (sematic_init_declarator typestr s))"

definition sematic_rhs_operand :: "pstate \<Rightarrow> (int \<times> pstate) option" where
  "sematic_rhs_operand s =
     (let b = sematic_LA s in
      if token b = ''IDENTIFIER'' then
        (let l = lookup_symbol (lexeme b) s in
         case l of
           None \<Rightarrow>
             Some (TYPE_ERROR,
                   snd (sematic_consume (semantic_error ''Undeclared identifier.'' (line b) s)))
         | Some sy \<Rightarrow> Some (str_to_type (sym_type sy), snd (sematic_consume s)))
      else if token b = ''INT_CONST'' \<or> token b = ''CHAR_CONST'' then
        Some (const_token_type b, snd (sematic_consume s))
      else None)"

lemma sematic_rhs_operand_extends: "sematic_rhs_operand s = Some p \<Longrightarrow> extends s (snd p)"
proof -
  assume a: "sematic_rhs_operand s = Some p"
  have "extends s (snd (sematic_consume (semantic_error ''Undeclared identifier.''
          (line (sematic_LA s)) s)))"
    using extends_trans [OF extends_semantic_error extends_sematic_consume] .
  with a show ?thesis
    by (auto simp: sematic_rhs_operand_def Let_def split: if_splits option.splits)
qed

function sematic_expr_loop :: "int \<Rightarrow> pstate \<Rightarrow> int \<times> pstate" where
  "sematic_expr_loop cur_type s =
     (let op = sematic_LA s in
      if \<not> is_operator (token op) then (cur_type, s)
      else
        let r = sematic_rhs_operand (snd (sematic_consume s)) in
        case r of
          None \<Rightarrow>
            (cur_type,
             sematic_syn_error ''Identifier or integer constant expected'' (snd (sematic_consume s)))
        | Some p \<Rightarrow>
            (let a = apply_binary_op (token op) cur_type (fst p) (line op) (snd p)
             in sematic_expr_loop (fst a) (snd a)))"
  by pat_completeness auto
termination
proof (relation "measure (\<lambda>(t, s). length (toks s) - pos s)", goal_cases)
  case 1
  show ?case by simp
next
  case (2 cur_type s op r p a)
  then have o: "is_operator (token (LA s))"
    by (simp add: sematic_LA_token)
  then have q: "pos s < length (toks s)"
    by (rule is_operator_LA_in_range)
  from 2 have r: "sematic_rhs_operand (snd (sematic_consume s)) = Some p"
    by simp
  have e: "extends (snd (sematic_consume s)) (snd p)"
    using sematic_rhs_operand_extends [OF r] .
  have "pos (snd (sematic_consume s)) = pos s + 1"
    using q by (simp add: sematic_consume_eq pos_consume)
  with e q 2 show ?case
    by (auto simp: extends_def case_prod_beta sematic_consume_eq)
qed

declare sematic_expr_loop.simps [simp del]

definition sematic_expression_if_any :: "pstate \<Rightarrow> int option \<times> pstate" where
  "sematic_expression_if_any s =
     (let a = sematic_LA s in
      if token a = ''IDENTIFIER'' then
        (let l = lookup_symbol (lexeme a) s in
         case l of
           None \<Rightarrow>
             (let r = sematic_expr_loop TYPE_ERROR
                        (snd (sematic_consume
                               (semantic_error ''Undeclared identifier.'' (line a) s)))
              in (Some (fst r), snd r))
         | Some sy \<Rightarrow>
             (let r = sematic_expr_loop (str_to_type (sym_type sy)) (snd (sematic_consume s))
              in (Some (fst r), snd r)))
      else if token a = ''INT_CONST'' \<or> token a = ''CHAR_CONST'' then
        (let r = sematic_expr_loop (const_token_type a) (snd (sematic_consume s))
         in (Some (fst r), snd r))
      else (None, s))"

definition sematic_expr_stmt :: "pstate \<Rightarrow> pstate" where
  "sematic_expr_stmt s =
     (let m = sematic_match ''SEMICOLON'' s in
      case fst m of
        Some a \<Rightarrow> snd m
      | None \<Rightarrow>
          (let e = sematic_expression_if_any (snd m);
               s1 = (case fst e of
                       None \<Rightarrow> sematic_syn_error ''Identifier or integer constant expected'' (snd e)
                     | Some expr_type \<Rightarrow> snd e)
           in sematic_expect ''SEMICOLON'' ''Semicolon expected'' s1))"

definition sematic_condition :: "pstate \<Rightarrow> pstate" where
  "sematic_condition s =
     (let e = sematic_expression_if_any s in
      case fst e of
        None \<Rightarrow> sematic_syn_error ''Identifier or integer constant expected'' (snd e)
      | Some cond_type \<Rightarrow>
          if cond_type \<noteq> TYPE_INT \<and> cond_type \<noteq> TYPE_ERROR
          then semantic_error ''Integer expected in conditional expression.''
                 (line (sematic_LA (snd e))) (snd e)
          else snd e)"

definition sematic_clause :: "pstate \<Rightarrow> pstate" where
  "sematic_clause s =
     (let e = sematic_expression_if_any s in
      case fst e of
        None \<Rightarrow> sematic_syn_error ''Identifier or integer constant expected'' (snd e)
      | Some e_type \<Rightarrow> snd e)"

lemma extends_sematic_init_declarator_loop [simp]:
  "extends s (sematic_init_declarator_loop typestr s)"
proof (induction typestr s rule: sematic_init_declarator_loop.induct)
  case (1 typestr s)
  show ?case
  proof (cases "fst (sematic_match ''COMMA'' s)")
    case None
    then show ?thesis
      by (subst sematic_init_declarator_loop.simps) (simp add: Let_def)
  next
    case (Some c)
    let ?m = "snd (sematic_match ''COMMA'' s)"
    have "extends s ?m"
      by simp
    also have "extends ?m (sematic_init_declarator typestr ?m)"
      by simp
    also have "extends (sematic_init_declarator typestr ?m)
        (sematic_init_declarator_loop typestr (sematic_init_declarator typestr ?m))"
      using 1 [OF refl Some] .
    finally show ?thesis
      using Some by (subst sematic_init_declarator_loop.simps) (simp add: Let_def)
  qed
qed

lemma extends_sematic_declaration [simp]: "extends s (sematic_declaration typestr s)"
proof -
  have "extends s (sematic_init_declarator typestr s)"
    by simp
  also have "extends (sematic_init_declarator typestr s)
      (sematic_init_declarator_loop typestr (sematic_init_declarator typestr s))"
    by simp
  also have "extends (sematic_init_declarator_loop typestr (sematic_init_declarator typestr s))
      (sematic_declaration typestr s)"
    by (simp add: sematic_declaration_def)
  finally show ?thesis .
qed

text \<open>
  The statement functions of \<open>sematic_analyser.c\<close>, with a bound on the depth of the
  calls as before. In \<open>statement\<close> the test of \<open>type_specifier\<close> is in the source.
\<close>

fun sematic_stmt_list_opt :: "nat \<Rightarrow> pstate \<Rightarrow> pstate option"
  and sematic_statement :: "nat \<Rightarrow> pstate \<Rightarrow> pstate option"
  and sematic_block :: "nat \<Rightarrow> pstate \<Rightarrow> pstate option"
  and sematic_if_stmt :: "nat \<Rightarrow> pstate \<Rightarrow> pstate option"
  and sematic_while_stmt :: "nat \<Rightarrow> pstate \<Rightarrow> pstate option"
  and sematic_for_stmt :: "nat \<Rightarrow> pstate \<Rightarrow> pstate option"
where
  "sematic_stmt_list_opt 0 s = None"
| "sematic_stmt_list_opt (Suc n) s =
     (let t = sematic_LA s in
      if token t = ''RBRACE'' \<or> token t = ''EOF'' then Some s
      else (let r = sematic_statement n s in
            case r of None \<Rightarrow> None | Some s1 \<Rightarrow> sematic_stmt_list_opt n s1))"
| "sematic_statement 0 s = None"
| "sematic_statement (Suc n) s =
     (let t = sematic_LA s in
      if is_type_token (token t) then
        (let ts = sematic_type_specifier s in
         case fst ts of
           None \<Rightarrow> Some (sematic_syn_error ''Any keyword expected'' (snd ts))
         | Some typestr \<Rightarrow> Some (sematic_declaration typestr (snd ts)))
      else if token t = ''IF'' then sematic_if_stmt n s
      else if token t = ''WHILE'' then sematic_while_stmt n s
      else if token t = ''FOR'' then sematic_for_stmt n s
      else if token t = ''LBRACE'' then sematic_block n s
      else Some (sematic_expr_stmt s))"
| "sematic_block 0 s = None"
| "sematic_block (Suc n) s =
     (let m = sematic_match ''LBRACE'' s in
      case fst m of
        None \<Rightarrow> Some (sematic_syn_error ''{ missing'' (snd m))
      | Some a \<Rightarrow>
          (let r = sematic_stmt_list_opt n (snd m) in
           case r of
             None \<Rightarrow> None
           | Some s2 \<Rightarrow> Some (sematic_expect ''RBRACE'' ''} missing'' s2)))"
| "sematic_if_stmt 0 s = None"
| "sematic_if_stmt (Suc n) s =
     (let m = sematic_match ''IF'' s in
      case fst m of
        None \<Rightarrow> Some (sematic_syn_error ''IF expected'' (snd m))
      | Some a \<Rightarrow>
          (let r = sematic_block n
                     (sematic_expect ''RPAREN'' ''Closing parenthesis missing''
                       (sematic_condition
                         (sematic_expect ''LPAREN'' ''Opening parenthesis missing'' (snd m)))) in
           case r of
             None \<Rightarrow> None
           | Some s2 \<Rightarrow>
               (let e = sematic_match ''ELSE'' s2 in
                case fst e of None \<Rightarrow> Some (snd e) | Some b \<Rightarrow> sematic_block n (snd e))))"
| "sematic_while_stmt 0 s = None"
| "sematic_while_stmt (Suc n) s =
     (let m = sematic_match ''WHILE'' s in
      case fst m of
        None \<Rightarrow> Some (sematic_syn_error ''WHILE expected'' (snd m))
      | Some a \<Rightarrow>
          sematic_block n
            (sematic_expect ''RPAREN'' ''Closing parenthesis missing''
              (sematic_condition
                (sematic_expect ''LPAREN'' ''Opening parenthesis missing'' (snd m)))))"
| "sematic_for_stmt 0 s = None"
| "sematic_for_stmt (Suc n) s =
     (let m = sematic_match ''FOR'' s in
      case fst m of
        None \<Rightarrow> Some (sematic_syn_error ''FOR expected'' (snd m))
      | Some a \<Rightarrow>
          sematic_statement n
            (sematic_expect ''RPAREN'' ''Closing parenthesis missing''
              (sematic_clause
                (sematic_expect ''SEMICOLON'' ''Semicolon expected''
                  (sematic_condition
                    (sematic_expect ''SEMICOLON'' ''Semicolon expected''
                      (sematic_clause
                        (sematic_expect ''LPAREN'' ''Opening parenthesis missing'' (snd m)))))))))"

declare sematic_stmt_list_opt.simps [simp del]
declare sematic_statement.simps [simp del]
declare sematic_block.simps [simp del]
declare sematic_if_stmt.simps [simp del]
declare sematic_while_stmt.simps [simp del]
declare sematic_for_stmt.simps [simp del]

text \<open>
  \<open>global_decl_list\<close> of \<open>sematic_analyser.c\<close>: it consumes the type token, reads the next
  token and steps back before it decides.
\<close>

function sematic_global_decl_list :: "pstate \<Rightarrow> pstate" where
  "sematic_global_decl_list s =
     (let t = sematic_LA s in
      if \<not> is_type_token (token t) then s
      else
        let s1 = snd (sematic_consume s); t2 = sematic_LA s1; s2 = s1\<lparr>pos := pos s1 - 1\<rparr> in
        if token t2 = ''MAIN'' then s2
        else
          (let ts = sematic_type_specifier s2 in
           case fst ts of
             None \<Rightarrow> sematic_syn_error ''Any keyword expected'' (snd ts)
           | Some typestr \<Rightarrow>
               sematic_global_decl_list (sematic_declaration typestr (snd ts))))"
  by pat_completeness auto
termination
proof (relation "measure (\<lambda>s. length (toks s) - pos s)", goal_cases)
  case 1
  show ?case by simp
next
  case (2 s t s1 t2 s2 ts typestr)
  then have "token (sematic_LA s) \<noteq> ''EOF''"
    by (auto simp: is_type_token_def)
  then have a: "pos s < length (toks s)"
    by (rule sematic_LA_in_range)
  then have b: "s2 = s"
    using 2 by (simp add: sematic_consume_def)
  have c: "snd ts = s\<lparr>pos := pos s + 1\<rparr>"
    using 2 a b by (simp add: sematic_type_specifier_def sematic_consume_def Let_def)
  have "extends (snd ts) (sematic_declaration typestr (snd ts))"
    by simp
  with a c show ?case
    by (auto simp: extends_def)
qed

declare sematic_global_decl_list.simps [simp del]

text \<open>
  The parameter loop of \<open>function_def\<close> in \<open>sematic_analyser.c\<close> goes on after a failed
  \<open>type_specifier\<close> or \<open>match\<close> and then reads \<open>pty\<close> and \<open>pid.lexeme\<close> without their having
  been written. What they hold then is not fixed by the program; it is the parameter
  \<open>junk\<close> (type, lexeme).
\<close>

function sematic_param_loop :: "string \<times> string \<Rightarrow> pstate \<Rightarrow> pstate" where
  "sematic_param_loop junk s =
     (let ts = sematic_type_specifier s;
          s1 = (case fst ts of
                  None \<Rightarrow> sematic_syn_error ''Any keyword expected'' (snd ts)
                | Some ty \<Rightarrow> snd ts);
          pty = (case fst ts of None \<Rightarrow> fst junk | Some ty \<Rightarrow> ty);
          m = sematic_match ''IDENTIFIER'' s1;
          s2 = (case fst m of
                  None \<Rightarrow> sematic_syn_error ''Identifier expected'' (snd m)
                | Some pid \<Rightarrow> snd m);
          name = (case fst m of None \<Rightarrow> snd junk | Some pid \<Rightarrow> lexeme pid);
          c = sematic_match ''COMMA'' (sematic_add_symbol name pty ''Main'' 0 s2)
      in case fst c of None \<Rightarrow> snd c | Some d \<Rightarrow> sematic_param_loop junk (snd c))"
  by pat_completeness auto
termination
proof (relation "measure (\<lambda>(junk, s). length (toks s) - pos s)", goal_cases)
  case 1
  show ?case by simp
next
  case (2 junk s ts s1 pty m s2 name c d)
  have e1: "extends s s1"
  proof (cases "fst ts")
    case None
    with 2 show ?thesis
      using extends_trans [OF extends_sematic_type_specifier extends_sematic_syn_error]
      by simp
  next
    case (Some ty)
    with 2 show ?thesis by simp
  qed
  have e2: "extends s1 s2"
  proof (cases "fst m")
    case None
    with 2 show ?thesis
      using extends_trans [OF extends_sematic_match extends_sematic_syn_error]
      by simp
  next
    case (Some pid)
    with 2 show ?thesis by simp
  qed
  let ?s3 = "sematic_add_symbol name pty ''Main'' 0 s2"
  have e3: "extends s2 ?s3"
    by simp
  from 2 have f: "fst (sematic_match ''COMMA'' ?s3) = Some d"
    by simp
  have a: "pos ?s3 < length (toks ?s3) \<and> snd (sematic_match ''COMMA'' ?s3) = ?s3\<lparr>pos := pos ?s3 + 1\<rparr>"
    using sematic_match_Some [OF f] by simp
  from e1 e2 e3 a 2 show ?case
    by (auto simp: extends_def)
qed

declare sematic_param_loop.simps [simp del]

definition sematic_function_def :: "nat \<Rightarrow> string \<times> string \<Rightarrow> string \<Rightarrow> pstate \<Rightarrow> pstate option" where
  "sematic_function_def n junk ret_type s =
     (let m = sematic_match ''MAIN'' s in
      case fst m of
        None \<Rightarrow> Some (sematic_syn_error ''MAIN expected'' (snd m))
      | Some a \<Rightarrow>
          let s1 = sematic_expect ''LPAREN'' ''Opening parenthesis missing'' (snd m);
              t = sematic_LA s1;
              s2 = (if token t = ''VOID'' then snd (sematic_consume s1)
                    else sematic_param_loop junk s1);
              s3 = sematic_expect ''RPAREN'' ''Closing parenthesis missing'' s2;
              s4 = (sematic_expect ''LBRACE'' ''{ missing'' s3)\<lparr>cur_scope := ''Main''\<rparr>;
              r = sematic_stmt_list_opt n s4
          in (case r of
                None \<Rightarrow> None
              | Some s5 \<Rightarrow>
                  Some ((sematic_expect ''RBRACE'' ''} missing'' s5)\<lparr>cur_scope := ''Global''\<rparr>)))"

definition sematic_program :: "nat \<Rightarrow> string \<times> string \<Rightarrow> pstate \<Rightarrow> pstate option" where
  "sematic_program n junk s =
     (let ts = sematic_type_specifier (sematic_global_decl_list s) in
      case fst ts of
        None \<Rightarrow> Some (sematic_syn_error ''Any keyword expected'' (snd ts))
      | Some ftype \<Rightarrow> sematic_function_def n junk ftype (snd ts))"

section \<open>The function definition and the minimal program\<close>

lemmas sematic_eval =
  sematic_stmt_list_opt.simps(2) sematic_statement.simps(2) sematic_block.simps(2)
  sematic_if_stmt.simps(2) sematic_while_stmt.simps(2) sematic_for_stmt.simps(2)
  sematic_global_decl_list.simps sematic_param_loop.simps sematic_init_declarator_loop.simps
  sematic_expr_loop.simps skip_line_tokens.simps
  sematic_function_def_def sematic_program_def sematic_declaration_def
  sematic_init_declarator_def sematic_init_opt_def sematic_array_opt_def
  sematic_expr_stmt_def sematic_condition_def sematic_clause_def
  sematic_expression_if_any_def sematic_rhs_operand_def lookup_symbol_eval
  sematic_type_specifier_def sematic_expect_def sematic_match_def sematic_LA_def
  sematic_consume_def sematic_syn_error_def sematic_add_symbol_def prev_line_def
  sentinel_tok_def declared_in_def MAXSYM_def semantic_error_def apply_binary_op_def
  init_state_def mk_tok_def mk_sym_def is_type_token_def is_operator_def norm_type_token_def
  str_to_type_def const_token_type_def type_codes Let_def

text \<open>The tokens of \<open>int main(void){ }\<close>, all on line 1.\<close>

definition minimal_tokens :: "Tok list" where
  "minimal_tokens =
     [mk_tok ''INT'' ''int'' 1, mk_tok ''MAIN'' ''main'' 1, mk_tok ''LPAREN'' ''('' 1,
      mk_tok ''VOID'' ''void'' 1, mk_tok ''RPAREN'' '')'' 1, mk_tok ''LBRACE'' ''{'' 1,
      mk_tok ''RBRACE'' ''}'' 1]"

lemma program_minimal:
  "program (Suc (Suc 0)) (init_state minimal_tokens) =
     Some \<lparr>toks = minimal_tokens, pos = 7,
           symtab = [mk_sym ''main'' ''Function'' ''Global'' 0],
           cur_scope = ''Global'', error_count = 0, diag = []\<rparr>"
  by (simp add: minimal_tokens_def parser_eval del: parser_simps cong: let_weak_cong)

lemma sematic_program_minimal:
  "sematic_program (Suc 0) junk (init_state minimal_tokens) =
     Some \<lparr>toks = minimal_tokens, pos = 7, symtab = [],
           cur_scope = ''Global'', error_count = 0, diag = []\<rparr>"
  by (simp add: minimal_tokens_def sematic_eval cong: let_weak_cong)
lemma extends_param_loop [simp]: "extends s (param_loop s)"
proof (induction s rule: param_loop.induct)
  case (1 s)
  obtain r s1 where ts: "type_specifier s = (r, s1)"
    by (cases "type_specifier s")
  have e1: "extends s s1"
    using ts by (rule extends_type_specifier_result)
  show ?case
  proof (cases r)
    case None
    with ts show ?thesis
      using extends_then_syn_error [OF e1] by (subst param_loop.simps) simp
  next
    case (Some pty)
    obtain q s2 where m: "match ''IDENTIFIER'' s1 = (q, s2)"
      by (cases "match ''IDENTIFIER'' s1")
    have e2: "extends s s2"
      using extends_then_match [OF m e1] .
    show ?thesis
    proof (cases q)
      case None
      with ts Some m show ?thesis
        using extends_then_syn_error [OF e2] by (subst param_loop.simps) simp
    next
      case pid: (Some pid)
      let ?s3 = "add_symbol (lexeme pid) pty ''Main'' 0 (line pid) s2"
      obtain c s4 where cm: "match ''COMMA'' ?s3 = (c, s4)"
        by (cases "match ''COMMA'' ?s3")
      have e3: "extends s ?s3"
        using extends_trans [OF e2 extends_add_symbol] .
      have e4: "extends s s4"
        using extends_then_match [OF cm e3] .
      show ?thesis
      proof (cases c)
        case None
        with ts Some m pid cm e4 show ?thesis
          by (subst param_loop.simps) simp
      next
        case d: (Some d)
        have "extends s4 (param_loop s4)"
          using 1 [OF ts [symmetric] Some m [symmetric] pid cm [symmetric] d] .
        then have "extends s (param_loop s4)"
          using extends_trans [OF e4] by blast
        with ts Some m pid cm d show ?thesis
          by (subst param_loop.simps) simp
      qed
    qed
  qed
qed

text \<open>
  \<open>function_def\<close> of \<open>semantic_analyser.c\<close>, once \<open>MAIN\<close> is matched: the state in which
  the parameters and the body are parsed.
\<close>

definition body_entry :: "pstate \<Rightarrow> pstate" where
  "body_entry s =
     (let s1 = snd (consume s);
          s2 = (add_symbol ''main'' ''Function'' ''Global'' 0 (line (LA s)) s1)
                 \<lparr>cur_scope := ''Main''\<rparr>;
          s3 = expect ''LPAREN'' ''Opening parenthesis missing'' s2;
          t = LA s3;
          s4 = (if token t = ''VOID'' then snd (consume s3)
                else if is_type_token (token t) then param_loop s3
                else s3)
      in expect ''RPAREN'' ''Closing parenthesis missing'' s4)"

lemma function_def_body:
  assumes "token (LA s) = ''MAIN''"
  shows "function_def n ret_type s =
     (case block n (body_entry s) of
        None \<Rightarrow> None
      | Some s6 \<Rightarrow> Some (s6\<lparr>cur_scope := ''Global''\<rparr>))"
  using assms by (simp add: function_def_def match_def body_entry_def Let_def)

lemma body_entry_frame:
  "extends ((add_symbol ''main'' ''Function'' ''Global'' 0 (line (LA s)) (snd (consume s)))
              \<lparr>cur_scope := ''Main''\<rparr>) (body_entry s)"
proof -
  let ?s2 = "(add_symbol ''main'' ''Function'' ''Global'' 0 (line (LA s)) (snd (consume s)))
               \<lparr>cur_scope := ''Main''\<rparr>"
  let ?s3 = "expect ''LPAREN'' ''Opening parenthesis missing'' ?s2"
  let ?s4 = "if token (LA ?s3) = ''VOID'' then snd (consume ?s3)
             else if is_type_token (token (LA ?s3)) then param_loop ?s3 else ?s3"
  have "extends ?s2 ?s3"
    by simp
  also have "extends ?s3 ?s4"
    by simp
  also have "extends ?s4 (expect ''RPAREN'' ''Closing parenthesis missing'' ?s4)"
    by simp
  finally show ?thesis
    by (simp add: body_entry_def Let_def)
qed

lemma body_entry_scope: "cur_scope (body_entry s) = ''Main''"
  using body_entry_frame [of s] by (simp add: extends_def)

lemma body_entry_remaining: "remaining (body_entry s) \<le> remaining s"
proof -
  have "remaining (body_entry s) \<le>
      remaining ((add_symbol ''main'' ''Function'' ''Global'' 0 (line (LA s)) (snd (consume s)))
                   \<lparr>cur_scope := ''Main''\<rparr>)"
    by (rule remaining_extends [OF body_entry_frame])
  also have "\<dots> = remaining (snd (consume s))"
    by (simp add: remaining_def add_symbol_def Let_def)
  also have "\<dots> \<le> remaining s"
    by (rule remaining_extends [OF extends_consume])
  finally show ?thesis .
qed

lemma body_entry_main:
  assumes "\<not> declared_in ''main'' ''Global'' (symtab s)" "length (symtab s) < MAXSYM"
  shows "prefix (symtab s @ [mk_sym ''main'' ''Function'' ''Global'' 0]) (symtab (body_entry s))"
proof -
  have c: "symtab (snd (consume s)) = symtab s"
    by (simp add: consume_def Let_def)
  have "symtab (add_symbol ''main'' ''Function'' ''Global'' 0 (line (LA s)) (snd (consume s))) =
      symtab s @ [mk_sym ''main'' ''Function'' ''Global'' 0]"
    using assms c by (simp add: add_symbol_def mk_sym_def)
  then show ?thesis
    using body_entry_frame [of s] by (simp add: extends_def)
qed

lemma function_def_result:
  assumes m: "token (LA s) = ''MAIN''" and n: "3 * remaining s < n"
  shows "\<exists>s6. block n (body_entry s) = Some s6 \<and> extends (body_entry s) s6 \<and>
           function_def n ret_type s = Some (s6\<lparr>cur_scope := ''Global''\<rparr>)"
proof -
  have "3 * remaining (body_entry s) < n"
    using body_entry_remaining [of s] n by simp
  then obtain s6 where b: "block n (body_entry s) = Some s6"
    using block_returns by blast
  then have "extends (body_entry s) s6"
    by (rule extends_block)
  with b show ?thesis
    using function_def_body [OF m, of n ret_type] by simp
qed

lemma program_returns: "3 * length (toks s) < n \<Longrightarrow> \<exists>s'. program n s = Some s'"
proof -
  assume n: "3 * length (toks s) < n"
  obtain r s1 where ts: "type_specifier (global_decl_list s) = (r, s1)"
    by (cases "type_specifier (global_decl_list s)")
  show ?thesis
  proof (cases r)
    case None
    with ts show ?thesis
      by (simp add: program_def)
  next
    case (Some rtype)
    have t: "toks s1 = toks (global_decl_list s)"
      using extends_type_specifier_result [OF ts] by (simp add: extends_def)
    have g: "toks (global_decl_list s) = toks s"
    proof (induction s rule: global_decl_list.induct)
      case (1 s)
      show ?case
      proof (cases "is_type_token (token (LA s))")
        case False
        then show ?thesis
          by (subst global_decl_list.simps) simp
      next
        case ty: True
        show ?thesis
        proof (cases "token (LA (snd (consume s))) = ''MAIN''")
          case True
          with ty show ?thesis
            by (subst global_decl_list.simps) (simp add: Let_def)
        next
          case False
          let ?d = "declaration_rule (norm_type_token (token (LA s))) (snd (consume s))"
          have "toks (global_decl_list ?d) = toks ?d"
            using 1 [OF refl _ refl refl refl False] ty by simp
          also have "\<dots> = toks (snd (consume s))"
            using extends_declaration_rule by (simp add: extends_def)
          finally show ?thesis
            using ty False by (subst global_decl_list.simps) (simp add: Let_def)
        qed
      qed
    qed
    have "remaining s1 \<le> length (toks s)"
      using t g by (simp add: remaining_def)
    with n have b: "3 * remaining s1 < n"
      by simp
    show ?thesis
    proof (cases "fst (match ''MAIN'' s1)")
      case None
      with ts Some show ?thesis
        by (simp add: program_def function_def_eval Let_def)
    next
      case m: (Some a)
      then have "token (LA s1) = ''MAIN''"
        by (auto simp: match_def Let_def split: if_splits)
      from function_def_result [OF this b, of rtype] ts Some show ?thesis
        by (auto simp: program_def)
    qed
  qed
qed

text \<open>
  \<open>function_def\<close> of \<open>semantic_analyser.c\<close> on a lookahead \<open>MAIN\<close>, with \<open>main\<close> not yet
  declared in \<open>Global\<close> and room in the table: \<open>main\<close> is appended as a \<open>Function\<close> of scope
  \<open>Global\<close> before the parameters and the body are parsed under the scope register \<open>Main\<close>,
  the function returns, the entry is still in the table, and the register is \<open>Global\<close> again.
\<close>

lemma function_def_inserts_main:
  assumes "token (LA s) = ''MAIN''" and "3 * remaining s < n"
    and "\<not> declared_in ''main'' ''Global'' (symtab s)" and "length (symtab s) < MAXSYM"
  shows "\<exists>s6. block n (body_entry s) = Some s6 \<and>
           function_def n ret_type s = Some (s6\<lparr>cur_scope := ''Global''\<rparr>) \<and>
           cur_scope (body_entry s) = ''Main'' \<and>
           prefix (symtab s @ [mk_sym ''main'' ''Function'' ''Global'' 0]) (symtab (body_entry s)) \<and>
           prefix (symtab s @ [mk_sym ''main'' ''Function'' ''Global'' 0]) (symtab s6)"
proof -
  obtain s6 where b: "block n (body_entry s) = Some s6" and e: "extends (body_entry s) s6"
    and f: "function_def n ret_type s = Some (s6\<lparr>cur_scope := ''Global''\<rparr>)"
    using function_def_result [OF assms(1,2)] by blast
  have p: "prefix (symtab s @ [mk_sym ''main'' ''Function'' ''Global'' 0]) (symtab (body_entry s))"
    using body_entry_main [OF assms(3,4)] .
  moreover have "prefix (symtab (body_entry s)) (symtab s6)"
    using e by (simp add: extends_def)
  ultimately have "prefix (symtab s @ [mk_sym ''main'' ''Function'' ''Global'' 0]) (symtab s6)"
    by (rule prefix_order.trans)
  with b f p body_entry_scope show ?thesis
    by blast
qed

text \<open>
  Claim C3. Parsing \<open>function_def\<close> inserts \<open>main\<close> as a \<open>Function\<close> symbol of scope \<open>Global\<close>
  before the scope register switches to \<open>Main\<close>, and for the minimal program
  \<open>int main(void){ }\<close> the run ends with no diagnostic and a symbol table of exactly one
  entry, the \<open>Function\<close> \<open>main\<close> of scope \<open>Global\<close>. This is what \<open>semantic_analyser.c\<close> does
  (first conjunct). The \<open>function_def\<close> of \<open>sematic_analyser.c\<close> has no call of \<open>add_symbol\<close>
  for \<open>main\<close>: on the same token stream its run ends with no diagnostic and an empty
  symbol table (second conjunct), whatever the uninitialised parameter buffers hold.
\<close>

theorem C3_minimal_program_main_entry:
  "program (Suc (Suc 0)) (init_state minimal_tokens) =
     Some \<lparr>toks = minimal_tokens, pos = 7,
           symtab = [\<lparr>sym_lexeme = ''main'', sym_type = ''Function'', sym_scope = ''Global'',
                      array_size = 0\<rparr>],
           cur_scope = ''Global'', error_count = 0, diag = []\<rparr> \<and>
   sematic_program (Suc 0) junk (init_state minimal_tokens) =
     Some \<lparr>toks = minimal_tokens, pos = 7, symtab = [],
           cur_scope = ''Global'', error_count = 0, diag = []\<rparr>"
  using program_minimal sematic_program_minimal [of junk] by (simp add: mk_sym_def)

section \<open>The type check of a condition\<close>






text \<open>
  The diagnostics with the message of the condition check. Evaluating an expression
  reports none of them.
\<close>

definition cond_msg :: string where
  "cond_msg = ''Integer expected in conditional expression.''"

definition cond_diags :: "pstate \<Rightarrow> (int \<times> string) list" where
  "cond_diags s = filter (\<lambda>d. snd d = cond_msg) (diag s)"

lemma cond_diags_consume [simp]: "cond_diags (snd (consume s)) = cond_diags s"
  by (simp add: cond_diags_def)

lemma cond_diags_semantic_error:
  "msg \<noteq> cond_msg \<Longrightarrow> cond_diags (semantic_error msg ln s) = cond_diags s"
  by (simp add: cond_diags_def)

lemma cond_diags_syn_error:
  "msg \<noteq> cond_msg \<Longrightarrow> cond_diags (syn_error msg s) = cond_diags s"
  by (simp add: cond_diags_def diag_syn_error)

lemma cond_diags_apply_binary_op [simp]:
  "cond_diags (snd (apply_binary_op op l r ln s)) = cond_diags s"
  by (simp add: apply_binary_op_def cond_diags_semantic_error cond_msg_def)

lemma cond_diags_rhs_operand:
  "rhs_operand s = Some (t, s') \<Longrightarrow> cond_diags s' = cond_diags s"
  by (auto simp: rhs_operand_def Let_def cond_diags_semantic_error cond_msg_def
           split: if_splits option.splits)

lemma cond_diags_expr_loop [simp]: "cond_diags (snd (expr_loop t s)) = cond_diags s"
proof (induction t s rule: expr_loop.induct)
  case (1 cur_type s)
  show ?case
  proof (cases "is_operator (token (LA s))")
    case False
    then show ?thesis
      by (subst expr_loop.simps) simp
  next
    case op: True
    show ?thesis
    proof (cases "rhs_operand (snd (consume s))")
      case None
      with op show ?thesis
        by (subst expr_loop.simps) (simp add: cond_diags_syn_error cond_msg_def)
    next
      case (Some p)
      obtain rhs_type s2 where p: "p = (rhs_type, s2)"
        by (cases p)
      let ?a = "apply_binary_op (token (LA s)) cur_type rhs_type (line (LA s)) s2"
      have "cond_diags (snd (expr_loop (fst ?a) (snd ?a))) = cond_diags (snd ?a)"
        using op Some p by (intro 1 [OF refl _ _ refl]) simp_all
      also have "\<dots> = cond_diags s"
        using cond_diags_rhs_operand [of "snd (consume s)" rhs_type s2] Some p by simp
      finally show ?thesis
        using op Some p by (subst expr_loop.simps) (simp add: Let_def)
    qed
  qed
qed








lemma cond_diags_sematic_consume [simp]: "cond_diags (snd (sematic_consume s)) = cond_diags s"
  by (simp add: sematic_consume_eq)

lemma diag_sematic_syn_error:
  "diag (sematic_syn_error msg s) = diag s @ [(line (sematic_LA s), msg)]"
  by (simp add: sematic_syn_error_def sematic_LA_def Let_def skip_line_tokens_frame)

lemma cond_diags_sematic_syn_error:
  "msg \<noteq> cond_msg \<Longrightarrow> cond_diags (sematic_syn_error msg s) = cond_diags s"
  by (simp add: cond_diags_def diag_sematic_syn_error)

lemma cond_diags_sematic_rhs_operand:
  "sematic_rhs_operand s = Some p \<Longrightarrow> cond_diags (snd p) = cond_diags s"
  by (auto simp: sematic_rhs_operand_def Let_def cond_diags_semantic_error cond_msg_def
           split: if_splits option.splits)

lemma cond_diags_sematic_expr_loop [simp]:
  "cond_diags (snd (sematic_expr_loop t s)) = cond_diags s"
proof (induction t s rule: sematic_expr_loop.induct)
  case (1 cur_type s)
  show ?case
  proof (cases "is_operator (token (sematic_LA s))")
    case False
    then show ?thesis
      by (subst sematic_expr_loop.simps) simp
  next
    case op: True
    show ?thesis
    proof (cases "sematic_rhs_operand (snd (sematic_consume s))")
      case None
      with op show ?thesis
        by (subst sematic_expr_loop.simps) (simp add: cond_diags_sematic_syn_error cond_msg_def)
    next
      case (Some p)
      let ?a = "apply_binary_op (token (sematic_LA s)) cur_type (fst p) (line (sematic_LA s))
                  (snd p)"
      have "cond_diags (snd (sematic_expr_loop (fst ?a) (snd ?a))) = cond_diags (snd ?a)"
        using op Some by (intro 1 [OF refl _ refl _ refl]) simp_all
      also have "\<dots> = cond_diags s"
        using cond_diags_sematic_rhs_operand [OF Some] by simp
      finally show ?thesis
        using op Some by (subst sematic_expr_loop.simps) (simp add: Let_def)
    qed
  qed
qed



lemma sematic_match_keyword:
  "token (sematic_LA s) = kind \<Longrightarrow>
     sematic_match kind s = (Some (sematic_LA s), snd (sematic_consume s))"
  by (simp add: sematic_match_def Let_def)




text \<open>
  The loop \<open>while (y) { }\<close> in scope \<open>Main\<close>, with the closing parenthesis on the next line,
  for \<open>y\<close> declared \<open>char\<close> and for \<open>y\<close> declared \<open>int\<close>; and an \<open>if\<close> and a \<open>for\<close> statement
  over constants.
\<close>

definition loop_tokens :: "Tok list" where
  "loop_tokens =
     [mk_tok ''WHILE'' ''while'' 3, mk_tok ''LPAREN'' ''('' 3, mk_tok ''IDENTIFIER'' ''y'' 3,
      mk_tok ''RPAREN'' '')'' 4, mk_tok ''LBRACE'' ''{'' 4, mk_tok ''RBRACE'' ''}'' 4]"


definition int_loop :: pstate where
  "int_loop =
     \<lparr>toks = loop_tokens, pos = 0, symtab = [mk_sym ''y'' ''Int'' ''Global'' 0],
      cur_scope = ''Main'', error_count = 0, diag = []\<rparr>"




lemma int_loop_run:
  "while_stmt (Suc (Suc (Suc 0))) int_loop = Some (int_loop\<lparr>pos := 6\<rparr>)"
  by (simp add: int_loop_def loop_tokens_def parser_eval del: parser_simps cong: let_weak_cong)










section \<open>The token file loader of \<open>semantic_analyser.c\<close>\<close>

text \<open>
  The file is the list of its characters. \<open>fgets(linebuf, 512, f)\<close> stores at most 511
  characters, up to and including the first newline, and returns \<open>NULL\<close> (\<open>None\<close>) when
  no character is left; the result is the line and the rest of the file.
\<close>

definition MAXTOK :: nat where
  "MAXTOK = 100000"

definition TAB :: char where
  "TAB = CHR 0x09"

fun line_chars :: "nat \<Rightarrow> string \<Rightarrow> string" where
  "line_chars k [] = []"
| "line_chars k (c # cs) =
     (if k = 0 then [] else if c = NL then [c] else c # line_chars (k - 1) cs)"

definition fgets :: "string \<Rightarrow> (string \<times> string) option" where
  "fgets cs =
     (if cs = [] then None
      else let l = line_chars 511 cs in Some (l, drop (length l) cs))"

text \<open>
  \<open>sscanf(linebuf, "%31s %255s %d", t1, t2, &line)\<close> reads \<open>linebuf\<close> up to its first zero
  byte. \<open>%s\<close> with a width skips white space and takes the characters up to the next white
  space, at most as many as the width; it fails when there is none. \<open>%d\<close> skips white
  space and takes an optional sign and the digits that follow; it fails without a digit.
  \<open>sscanf3\<close> is \<open>Some\<close> of the three values when the call returns 3.
\<close>

definition scan_s :: "nat \<Rightarrow> string \<Rightarrow> (string \<times> string) option" where
  "scan_s width cs =
     (let r = dropWhile is_space cs;
          w = take width (takeWhile (\<lambda>c. \<not> is_space c) r)
      in if w = [] then None else Some (w, drop (length w) r))"

definition scan_d :: "string \<Rightarrow> int option" where
  "scan_d cs =
     (let r = dropWhile is_space cs;
          ds = (case r of
                  [] \<Rightarrow> []
                | c # cs' \<Rightarrow> if c = CHR ''-'' \<or> c = CHR ''+'' then cs' else r)
      in case ds of
           [] \<Rightarrow> None
         | d # ds' \<Rightarrow> if is_digit d then Some (to_int32 (strtol r)) else None)"

definition sscanf3 :: "string \<Rightarrow> Tok option" where
  "sscanf3 linebuf =
     (case scan_s 31 (takeWhile (\<lambda>c. c \<noteq> NUL) linebuf) of
        None \<Rightarrow> None
      | Some f1 \<Rightarrow>
          (case scan_s 255 (snd f1) of
             None \<Rightarrow> None
           | Some f2 \<Rightarrow>
               (case scan_d (snd f2) of
                  None \<Rightarrow> None
                | Some ln \<Rightarrow> Some \<lparr>token = fst f1, lexeme = fst f2, line = ln\<rparr>)))"

lemma line_chars_nonempty: "0 < k \<Longrightarrow> cs \<noteq> [] \<Longrightarrow> line_chars k cs \<noteq> []"
  by (cases cs) auto

lemma fgets_shorter: "fgets cs = Some lr \<Longrightarrow> length (snd lr) < length cs"
  using line_chars_nonempty [of 511 cs]
  by (auto simp: fgets_def Let_def split: if_splits)

text \<open>
  The loop \<open>while (fgets(linebuf, sizeof(linebuf), f))\<close> of \<open>load_tokens\<close>, from the tokens
  stored so far: a line for which \<open>sscanf\<close> does not return 3 is passed over; the loop
  is left when the array is full.
\<close>

function load_loop :: "Tok list \<Rightarrow> string \<Rightarrow> Tok list" where
  "load_loop ts cs =
     (case fgets cs of
        None \<Rightarrow> ts
      | Some lr \<Rightarrow>
          (case sscanf3 (fst lr) of
             None \<Rightarrow> load_loop ts (snd lr)
           | Some t \<Rightarrow>
               if MAXTOK \<le> length ts then ts else load_loop (ts @ [t]) (snd lr)))"
  by pat_completeness auto
termination
  by (relation "measure (\<lambda>(ts, cs). length cs)") (auto dest: fgets_shorter)

declare load_loop.simps [simp del]

text \<open>
  \<open>load_tokens\<close>: the first \<open>fgets\<close>, before the loop, reads a line that is not looked
  at. \<open>None\<close> is the return value 0 (the file is empty), \<open>Some\<close> the token array with the
  return value 1.
\<close>

definition load_tokens :: "string \<Rightarrow> Tok list option" where
  "load_tokens cs =
     (case fgets cs of
        None \<Rightarrow> None
      | Some lr \<Rightarrow> Some (load_loop [] (snd lr)))"

text \<open>The row that \<open>emit\<close> of the tokenizer writes, and the header row.\<close>

definition row :: "string \<Rightarrow> string \<Rightarrow> string \<Rightarrow> string" where
  "row kind lx ln = kind @ [TAB] @ lx @ [TAB] @ ln @ [NL]"

definition header :: string where
  "header = row ''Token'' ''Lexeme'' ''Line No''"

lemma line_chars_first:
  "NL \<notin> set first \<Longrightarrow> length first < k \<Longrightarrow>
     line_chars k (first @ NL # rest) = first @ [NL]"
proof (induction first arbitrary: k)
  case Nil
  then show ?case by simp
next
  case (Cons c cs)
  then have "line_chars (k - 1) (cs @ NL # rest) = cs @ [NL]"
    by (intro Cons.IH) auto
  with Cons.prems show ?case
    by auto
qed

lemma fgets_first:
  "NL \<notin> set first \<Longrightarrow> length first < 511 \<Longrightarrow>
     fgets (first @ NL # rest) = Some (first @ [NL], rest)"
  by (simp add: fgets_def line_chars_first)

text \<open>Whatever the first line holds, it gives no token.\<close>

lemma load_tokens_first_line:
  assumes "NL \<notin> set first" "length first < 511"
  shows "load_tokens (first @ NL # rest) = Some (load_loop [] rest)"
  using fgets_first [OF assms, of rest] by (simp add: load_tokens_def)

lemmas loader_eval =
  load_loop.simps load_tokens_def fgets_def sscanf3_def scan_s_def scan_d_def
  strtol_def to_int32_def is_space_def is_digit_def row_def header_def TAB_def NL_def NUL_def
  MAXTOK_def mk_tok_def Let_def

lemma load_loop_line:
  assumes "NL \<notin> set l" "length l < 511"
  shows "load_loop ts (l @ NL # rest) =
     (case sscanf3 (l @ [NL]) of
        None \<Rightarrow> load_loop ts rest
      | Some t \<Rightarrow> if MAXTOK \<le> length ts then ts else load_loop (ts @ [t]) rest)"
  using fgets_first [OF assms, of rest]
  by (subst load_loop.simps) (simp split: option.splits)

lemma sscanf3_row:
  "sscanf3 (row ''INT'' ''int'' ''1'') = Some (mk_tok ''INT'' ''int'' 1)"
  by (simp add: loader_eval cong: option.case_cong_weak)

lemma sscanf3_header: "sscanf3 header = None"
  by (simp add: loader_eval cong: option.case_cong_weak)

text \<open>
  The row that the tokenizer writes for the string constant \<open>"a 2"\<close> of line 1 has four
  fields; \<open>sscanf\<close> returns 3 on it, with lexeme \<open>a\<close> and line 2.
\<close>

lemma sscanf3_string_row:
  "sscanf3 (row ''STRING_CONST'' ''a 2'' ''1'') = Some (mk_tok ''STRING_CONST'' ''a'' 2)"
  by (simp add: loader_eval cong: option.case_cong_weak)

lemma load_tokens_with_header:
  "load_tokens (header @ row ''INT'' ''int'' ''1'' @ row ''MAIN'' ''main'' ''1'') =
     Some [mk_tok ''INT'' ''int'' 1, mk_tok ''MAIN'' ''main'' 1]"
  by (simp add: loader_eval cong: option.case_cong_weak)

lemma load_tokens_without_header:
  "load_tokens (row ''INT'' ''int'' ''1'' @ row ''MAIN'' ''main'' ''1'') =
     Some [mk_tok ''MAIN'' ''main'' 1]"
  by (simp add: loader_eval cong: option.case_cong_weak)

text \<open>
  Claim C8. The loader tolerates a header row that may or may not be present: every row
  of three fields (kind, lexeme, line number) is loaded in file order, and no token row
  is lost when the file has no header line. In \<open>semantic_analyser.c\<close> this holds for a
  file with the header (third conjunct). For the same two rows without the header, the
  row \<open>INT int 1\<close> is lost, although \<open>sscanf\<close> returns 3 on it (first and second
  conjunct): the \<open>fgets\<close> before the loop discards the first line of every file.
\<close>

theorem C8_row_lost_without_header:
  "sscanf3 (row ''INT'' ''int'' ''1'') =
     Some \<lparr>token = ''INT'', lexeme = ''int'', line = 1\<rparr> \<and>
   load_tokens (row ''INT'' ''int'' ''1'' @ row ''MAIN'' ''main'' ''1'') =
     Some [\<lparr>token = ''MAIN'', lexeme = ''main'', line = 1\<rparr>] \<and>
   load_tokens (header @ row ''INT'' ''int'' ''1'' @ row ''MAIN'' ''main'' ''1'') =
     Some [\<lparr>token = ''INT'', lexeme = ''int'', line = 1\<rparr>,
           \<lparr>token = ''MAIN'', lexeme = ''main'', line = 1\<rparr>]"
  using sscanf3_row load_tokens_without_header load_tokens_with_header
  by (simp add: mk_tok_def)

end
